theory Spec2Isabelle
  imports Main "HOL-Library.Sublist"
begin

section \<open>The stream interpreter of \<open>frontend/app/simple-chat.tsx\<close>\<close>

text \<open>
  The component \<open>SimpleChat\<close> posts a request and reads the answer, a stream of
  server-sent events, inside \<open>handleSubmit\<close>. This theory embeds that function: the
  strings it cuts, the JSON values it inspects, the state \<open>messages\<close> with the updaters
  queued for it, the locals \<open>assistantMessage\<close> and \<open>hasSeenToolCalls\<close>, and the error
  path.

  Conventions.
  \<^item> A JavaScript string is a \<open>string\<close>; a \<open>char\<close> stands for a code unit below 256.
  \<^item> \<open>timestamp: new Date()\<close> is a wall-clock reading that no branch of the code looks
    at; the records leave the field out.
  \<^item> \<open>setMessages\<close> queues its updater. React runs the queued updaters, in call order,
    when it renders the component; that is never inside the synchronous loop over the
    lines of a chunk, it can be while a read is awaited, and it is at the latest once
    \<open>handleSubmit\<close> has ended. An updater that reads a local of \<open>handleSubmit\<close> reads the
    value the local has when the updater runs. Whether React renders while a read is
    awaited is an input, given with each read. A render while \<open>fetch\<close> is awaited
    would only run the append of the user message earlier; it is left out.
  \<^item> \<open>JSON.parse\<close>, \<open>fetch\<close> and the body reader belong to the platform: the parser is a
    parameter \<open>parse\<close> (\<open>None\<close> for a SyntaxError), the outcome of the request and of
    each read is an input value.
\<close>

subsection \<open>Data\<close>

datatype role = User | Assistant | System

record ToolCall =
  name :: string
  description :: string

record Message =
  role :: role
  content :: string
  toolCalls :: "ToolCall list option"

record ChatSettings =
  domain :: string
  numHypotheses :: nat
  researchIdea :: string

text \<open>The React state of the component.\<close>

record Chat =
  messages :: "Message list"
  isStreaming :: bool
  settings :: ChatSettings

text \<open>
  The functions given to \<open>setMessages\<close>: the appends of lines 47, 81, 155 and 186, whose
  message is built from constants; the tool-call updater of lines 121 to 144, which
  closes over the constants \<open>toolName\<close> and \<open>toolDescription\<close>; and the content updater
  of lines 166 to 173, which reads the variable \<open>assistantMessage\<close>.
\<close>

datatype updater =
  Append Message
  | AddToolCall string string
  | SetContent

text \<open>The same state while \<open>handleSubmit\<close> runs: its two locals and the updaters that
  are queued and have not run yet.\<close>

record Stream = Chat +
  assistantMessage :: string
  hasSeenToolCalls :: bool
  pending :: "updater list"

text \<open>
  A parsed JSON value. A number carries the text JavaScript prints for it: the code
  never computes with one, it can only test it for zero or print it.
  In \<open>JObj\<close> the first binding of a key is the value of the property.
\<close>

datatype json =
  JNull
  | JBool bool
  | JNum string
  | JStr string
  | JArr "json list"
  | JObj "(string \<times> json) list"

text \<open>What a \<open>throw\<close> or a rejected promise carries: an \<open>Error\<close> with its message, or
  any other value.\<close>

datatype thrown = ErrorObj string | OtherThrown

datatype read_result = Chunk string | ReadRejected thrown

text \<open>\<open>Response ok status body\<close>; \<open>body\<close> is \<open>None\<close> when \<open>response.body\<close> is null, and
  otherwise the results of the successive \<open>reader.read()\<close> calls up to \<open>done\<close>, each
  with the answer to: did React render while this read was awaited?\<close>

datatype fetch_result =
  FetchRejected thrown
  | Response bool nat "(bool \<times> read_result) list option"

subsection \<open>String operations\<close>

definition startsWith :: "string \<Rightarrow> string \<Rightarrow> bool" where
  "startsWith s p = prefix p s"

fun js_includes :: "string \<Rightarrow> string \<Rightarrow> bool" where
  "js_includes [] p = (p = [])"
| "js_includes (c # cs) p = (prefix p (c # cs) \<or> js_includes cs p)"

text \<open>\<open>find_sep sep s\<close>: the text before and after the leftmost occurrence of \<open>sep\<close>.\<close>

fun find_sep :: "string \<Rightarrow> string \<Rightarrow> (string \<times> string) option" where
  "find_sep sep [] = (if sep = [] then Some ([], []) else None)"
| "find_sep sep (c # cs) =
     (if prefix sep (c # cs) then Some ([], drop (length sep) (c # cs))
      else (case find_sep sep cs of
              None \<Rightarrow> None
            | Some (b, a) \<Rightarrow> Some (c # b, a)))"

text \<open>\<open>s.split(sep)\<close>; with the empty separator JavaScript cuts between all code units.\<close>

function js_split :: "string \<Rightarrow> string \<Rightarrow> string list" where
  "js_split s sep =
     (if sep = [] then map (\<lambda>c. [c]) s
      else (case find_sep sep s of
              None \<Rightarrow> [s]
            | Some (b, a) \<Rightarrow> b # js_split a sep))"
  by pat_completeness auto
termination
proof (relation "measure (\<lambda>(s, sep). length s)")
  show "wf (measure (\<lambda>(s, sep). length s))"
    by simp
next
  fix s sep :: string and x b a
  assume sep: "sep \<noteq> []" and found: "find_sep sep s = Some x" "(b, a) = x"
  have shorter: "find_sep sep t = Some (b', a) \<Longrightarrow> length a < length t" for t b'
  proof (induction t arbitrary: b')
    case Nil
    with sep show ?case by simp
  next
    case (Cons c cs)
    show ?case
    proof (cases "prefix sep (c # cs)")
      case True
      with Cons.prems sep show ?thesis by auto
    next
      case False
      with Cons.prems obtain b2 where "find_sep sep cs = Some (b2, a)"
        by (auto split: option.splits)
      from Cons.IH [OF this] show ?thesis by simp
    qed
  qed
  from found have "find_sep sep s = Some (b, a)"
    by simp
  from shorter [OF this] show "((a, sep), (s, sep)) \<in> measure (\<lambda>(s, sep). length s)"
    by simp
qed

declare js_split.simps [simp del]

fun js_join :: "string list \<Rightarrow> string \<Rightarrow> string" where
  "js_join [] sep = []"
| "js_join [x] sep = x"
| "js_join (x # y # ys) sep = x @ sep @ js_join (y # ys) sep"

text \<open>White space and line terminators that \<open>trim\<close> removes, as far as they lie below 256:
  TAB, LF, VT, FF, CR, SP and NBSP.\<close>

definition is_space :: "char \<Rightarrow> bool" where
  "is_space c = (of_char c \<in> {9, 10, 11, 12, 13, 32, 160 :: nat})"

definition trim :: "string \<Rightarrow> string" where
  "trim s = rev (dropWhile is_space (rev (dropWhile is_space s)))"

text \<open>A match of \<open>/\[Calling tool: ([^\]]+)\]/\<close> that begins at the head of \<open>s\<close>: the
  group is the longest run without \<open>]\<close>, it is not empty and a \<open>]\<close> follows it.\<close>

definition match_here :: "string \<Rightarrow> string option" where
  "match_here s =
     (if prefix ''[Calling tool: '' s then
        (let rest = drop 15 s;
             grp = takeWhile (\<lambda>c. c \<noteq> CHR '']'') rest;
             after = dropWhile (\<lambda>c. c \<noteq> CHR '']'') rest
         in if grp \<noteq> [] \<and> after \<noteq> [] then Some grp else None)
      else None)"

text \<open>\<open>content.match(...)\<close>: the leftmost match; the result is capture group 1.\<close>

fun toolCallMatch :: "string \<Rightarrow> string option" where
  "toolCallMatch [] = None"
| "toolCallMatch (c # cs) =
     (case match_here (c # cs) of
        Some g \<Rightarrow> Some g
      | None \<Rightarrow> toolCallMatch cs)"

text \<open>Decimal text of a number, for \<open>${response.status}\<close> and
  \<open>${settings.numHypotheses}\<close>.\<close>

fun show_nat :: "nat \<Rightarrow> string" where
  "show_nat n =
     (if n < 10 then [char_of (48 + n)]
      else show_nat (n div 10) @ [char_of (48 + n mod 10)])"

declare show_nat.simps [simp del]

subsection \<open>JSON values\<close>

text \<open>Truthiness. The number zero prints as \<open>0\<close>.\<close>

fun truthy :: "json \<Rightarrow> bool" where
  "truthy JNull = False"
| "truthy (JBool b) = b"
| "truthy (JNum r) = (r \<noteq> ''0'')"
| "truthy (JStr s) = (s \<noteq> [])"
| "truthy (JArr xs) = True"
| "truthy (JObj kvs) = True"

text \<open>\<open>x?.k\<close> for a key that no prototype defines: only an object can have it.\<close>

fun get_prop :: "string \<Rightarrow> json \<Rightarrow> json option" where
  "get_prop k (JObj kvs) = map_of kvs k"
| "get_prop k _ = None"

text \<open>\<open>x?.[0]\<close>.\<close>

fun get_index0 :: "json \<Rightarrow> json option" where
  "get_index0 (JArr (x # xs)) = Some x"
| "get_index0 (JObj kvs) = map_of kvs ''0''"
| "get_index0 (JStr (c # cs)) = Some (JStr [c])"
| "get_index0 _ = None"

text \<open>\<open>parsed.choices?.[0]?.delta?.content\<close>. Reading \<open>choices\<close> of \<open>null\<close> throws a
  TypeError (\<open>Inl\<close>); everywhere else a missing link gives \<open>undefined\<close> (\<open>None\<close>).\<close>

definition delta_content :: "json \<Rightarrow> unit + json option" where
  "delta_content parsed =
     (if parsed = JNull then Inl ()
      else Inr (case get_prop ''choices'' parsed of
                  None \<Rightarrow> None
                | Some choices \<Rightarrow>
                    (case get_index0 choices of
                       None \<Rightarrow> None
                     | Some choice \<Rightarrow>
                         (case get_prop ''delta'' choice of
                            None \<Rightarrow> None
                          | Some delta \<Rightarrow> get_prop ''content'' delta))))"

text \<open>String conversion of a value, as \<open>+=\<close> applies it to an array.\<close>

fun js_to_string :: "json \<Rightarrow> string" where
  "js_to_string JNull = ''null''"
| "js_to_string (JBool b) = (if b then ''true'' else ''false'')"
| "js_to_string (JNum r) = r"
| "js_to_string (JStr s) = s"
| "js_to_string (JArr xs) =
     js_join (map (\<lambda>x. if x = JNull then [] else js_to_string x) xs) '',''"
| "js_to_string (JObj kvs) = ''[object Object]''"

subsection \<open>The updaters of \<open>messages\<close>\<close>

text \<open>Lines 121 to 144: record a tool call on the last message unless it is there already.\<close>

definition add_tool_call :: "string \<Rightarrow> string \<Rightarrow> Message list \<Rightarrow> Message list" where
  "add_tool_call toolName toolDescription prev =
     (if prev = [] then prev
      else
        (let lastMessage = last prev in
         if role lastMessage = Assistant then
           (let calls = (case toolCalls lastMessage of None \<Rightarrow> [] | Some cs \<Rightarrow> cs);
                toolCallText = trim toolName @ '' - '' @ trim toolDescription;
                isDuplicate =
                  list_ex (\<lambda>call. name call @ '' - '' @ description call = toolCallText) calls
            in butlast prev @
                 [lastMessage\<lparr>toolCalls :=
                    Some (if isDuplicate then calls
                          else calls @ [\<lparr>name = trim toolName,
                                          description = trim toolDescription\<rparr>])\<rparr>])
         else prev))"

text \<open>Lines 166 to 173: overwrite the content of the last message; \<open>text\<close> is the value
  of \<open>assistantMessage\<close> when the updater runs.\<close>

definition set_last_content :: "string \<Rightarrow> Message list \<Rightarrow> Message list" where
  "set_last_content text prev =
     (if prev = [] then prev
      else
        (let lastMessage = last prev in
         if role lastMessage = Assistant
         then butlast prev @ [lastMessage\<lparr>content := text\<rparr>]
         else prev))"

definition new_assistant :: "string \<Rightarrow> Message" where
  "new_assistant text = \<lparr>role = Assistant, content = text, toolCalls = Some []\<rparr>"

text \<open>One updater runs on the transcript; \<open>am\<close> is \<open>assistantMessage\<close> at that moment.\<close>

fun run_updater :: "string \<Rightarrow> Message list \<Rightarrow> updater \<Rightarrow> Message list" where
  "run_updater am prev (Append m) = prev @ [m]"
| "run_updater am prev (AddToolCall toolName toolDescription) =
     add_tool_call toolName toolDescription prev"
| "run_updater am prev SetContent = set_last_content am prev"

fun run_updaters :: "string \<Rightarrow> Message list \<Rightarrow> updater list \<Rightarrow> Message list" where
  "run_updaters am prev [] = prev"
| "run_updaters am prev (u # us) = run_updaters am (run_updater am prev u) us"

text \<open>\<open>setMessages(u)\<close> puts the updater at the end of the queue.\<close>

definition setMessages :: "updater \<Rightarrow> ('a Stream_scheme) \<Rightarrow> 'a Stream_scheme" where
  "setMessages u st = st\<lparr>pending := pending st @ [u]\<rparr>"

text \<open>React renders: the queued updaters run in order and the queue is empty again.\<close>

definition render :: "('a Stream_scheme) \<Rightarrow> 'a Stream_scheme" where
  "render st =
     st\<lparr>messages := run_updaters (assistantMessage st) (messages st) (pending st),
        pending := []\<rparr>"

subsection \<open>One event\<close>

text \<open>Lines 116 and 117: \<open>toolName\<close> and \<open>toolDescription\<close> from the captured text.
  Destructuring an empty array would leave \<open>toolName\<close> undefined and \<open>trim\<close> would
  throw; that is \<open>None\<close>.\<close>

definition split_tool_text :: "string \<Rightarrow> (string \<times> string) option" where
  "split_tool_text toolCallText =
     (case js_split toolCallText '' - '' of
        [] \<Rightarrow> None
      | toolName # descParts \<Rightarrow>
          (let joined = js_join descParts '' - ''
           in Some (toolName, if joined = [] then ''Running...'' else joined)))"

text \<open>Lines 113 to 145, after \<open>hasSeenToolCalls = true\<close>.\<close>

definition on_tool_call :: "('a Stream_scheme) \<Rightarrow> string \<Rightarrow> 'a Stream_scheme" where
  "on_tool_call st content' =
     (case toolCallMatch content' of
        None \<Rightarrow> st
      | Some toolCallText \<Rightarrow>
          (case split_tool_text toolCallText of
             None \<Rightarrow> st
           | Some (toolName, toolDescription) \<Rightarrow>
               setMessages (AddToolCall toolName toolDescription) st))"

text \<open>Lines 109 to 175 for a string \<open>content\<close>.\<close>

definition on_text :: "('a Stream_scheme) \<Rightarrow> string \<Rightarrow> 'a Stream_scheme" where
  "on_text st content' =
     (if js_includes content' ''[Calling tool:'' then
        on_tool_call (st\<lparr>hasSeenToolCalls := True\<rparr>) content'
      else if hasSeenToolCalls st \<and> trim content' \<noteq> [] then
        (setMessages (Append (new_assistant content')) st)
          \<lparr>assistantMessage := content', hasSeenToolCalls := False\<rparr>
      else
        setMessages SetContent (st\<lparr>assistantMessage := assistantMessage st @ content'\<rparr>))"

text \<open>
  Lines 102 to 176 for any truthy \<open>content\<close>. An array has \<open>includes\<close> but neither
  \<open>match\<close> nor \<open>trim\<close>, so a TypeError ends the event after the flag is set, or where
  \<open>trim\<close> would be called; otherwise its string conversion is accumulated. Any other
  value that is not a string has no \<open>includes\<close>: the TypeError ends the event at once.
\<close>

fun on_content :: "('a Stream_scheme) \<Rightarrow> json \<Rightarrow> 'a Stream_scheme" where
  "on_content st (JStr s) = on_text st s"
| "on_content st (JArr xs) =
     (if JStr ''[Calling tool:'' \<in> set xs then st\<lparr>hasSeenToolCalls := True\<rparr>
      else if hasSeenToolCalls st then st
      else
        setMessages SetContent
          (st\<lparr>assistantMessage := assistantMessage st @ js_to_string (JArr xs)\<rparr>))"
| "on_content st _ = st"

text \<open>Lines 96 to 180: one line of a chunk.\<close>

definition process_line ::
  "(string \<Rightarrow> json option) \<Rightarrow> ('a Stream_scheme) \<Rightarrow> string \<Rightarrow> 'a Stream_scheme" where
  "process_line parse st line =
     (if startsWith line ''data: '' then
        (let data = drop 6 line in
         if data = ''[DONE]'' then st
         else
           (case parse data of
              None \<Rightarrow> st
            | Some parsed \<Rightarrow>
                (case delta_content parsed of
                   Inl _ \<Rightarrow> st
                 | Inr None \<Rightarrow> st
                 | Inr (Some content') \<Rightarrow>
                     if truthy content' then on_content st content' else st)))
      else st)"

fun process_lines ::
  "(string \<Rightarrow> json option) \<Rightarrow> ('a Stream_scheme) \<Rightarrow> string list \<Rightarrow> 'a Stream_scheme" where
  "process_lines parse st [] = st"
| "process_lines parse st (line # lines) =
     process_lines parse (process_line parse st line) lines"

text \<open>Lines 92 to 95: the lines of one chunk. The loop over them never yields, so no
  updater runs between two lines of a chunk.\<close>

definition chunk_lines :: "string \<Rightarrow> string list" where
  "chunk_lines chunk = js_split chunk [CHR 0x0A]"

definition process_chunk ::
  "(string \<Rightarrow> json option) \<Rightarrow> ('a Stream_scheme) \<Rightarrow> string \<Rightarrow> 'a Stream_scheme" where
  "process_chunk parse st chunk = process_lines parse st (chunk_lines chunk)"

subsection \<open>The read loop and \<open>handleSubmit\<close>\<close>

text \<open>Line 89: while the read is awaited, React renders or does not.\<close>

definition await_read :: "bool \<Rightarrow> ('a Stream_scheme) \<Rightarrow> 'a Stream_scheme" where
  "await_read rendered st = (if rendered then render st else st)"

text \<open>Lines 88 to 182. A rejected read leaves the loop with the state reached so far.\<close>

fun read_loop ::
  "(string \<Rightarrow> json option) \<Rightarrow> ('a Stream_scheme) \<Rightarrow> (bool \<times> read_result) list
     \<Rightarrow> ('a Stream_scheme) \<times> thrown option" where
  "read_loop parse st [] = (st, None)"
| "read_loop parse st ((rendered, Chunk chunk) # reads) =
     read_loop parse (process_chunk parse (await_read rendered st) chunk) reads"
| "read_loop parse st ((rendered, ReadRejected e) # reads) = (await_read rendered st, Some e)"

text \<open>Lines 184 to 193: the \<open>catch\<close> block followed by \<open>finally\<close>.\<close>

definition error_text :: "thrown \<Rightarrow> string" where
  "error_text e =
     ''Error: '' @ (case e of ErrorObj m \<Rightarrow> m | OtherThrown \<Rightarrow> ''Unknown error occurred'')"

definition on_error :: "thrown \<Rightarrow> ('a Stream_scheme) \<Rightarrow> 'a Stream_scheme" where
  "on_error e st =
     setMessages (Append \<lparr>role = System, content = error_text e, toolCalls = None\<rparr>) st"

text \<open>\<open>finally\<close> clears the flag; React renders what is still queued. The result is the
  state of the component after \<open>handleSubmit\<close>.\<close>

definition finish :: "Stream \<Rightarrow> Chat" where
  "finish st =
     \<lparr>messages = messages (render st), isStreaming = False, settings = settings st\<rparr>"

definition user_text :: "ChatSettings \<Rightarrow> string" where
  "user_text s =
     ''Research Idea: '' @ researchIdea s @ [CHR 0x0A] @
     ''Domain: '' @ domain s @ [CHR 0x0A] @
     ''Number of Hypotheses: '' @ show_nat (numHypotheses s)"

text \<open>Lines 46 to 52: the user message is queued and the flag set. The locals of lines
  77 and 78 do not exist yet; their fields hold the values they will start with.\<close>

definition submit_user :: "Chat \<Rightarrow> Stream" where
  "submit_user c =
     \<lparr>messages = messages c,
      isStreaming = True,
      settings = settings c,
      assistantMessage = [],
      hasSeenToolCalls = False,
      pending = [Append \<lparr>role = User, content = user_text (settings c), toolCalls = None\<rparr>]\<rparr>"

text \<open>Lines 77 to 86: the locals are initialised and the empty assistant message is
  queued.\<close>

definition stream_start :: "('a Stream_scheme) \<Rightarrow> 'a Stream_scheme" where
  "stream_start st =
     setMessages (Append (new_assistant []))
       (st\<lparr>assistantMessage := [], hasSeenToolCalls := False\<rparr>)"

definition handleSubmit :: "(string \<Rightarrow> json option) \<Rightarrow> fetch_result \<Rightarrow> Chat \<Rightarrow> Chat" where
  "handleSubmit parse net c =
     (if trim (researchIdea (settings c)) = [] \<or> isStreaming c then c
      else
        (let st = submit_user c
         in case net of
              FetchRejected e \<Rightarrow> finish (on_error e st)
            | Response ok status body \<Rightarrow>
                if \<not> ok
                then finish (on_error (ErrorObj (''HTTP error! status: '' @ show_nat status)) st)
                else
                  (case body of
                     None \<Rightarrow> finish st
                   | Some reads \<Rightarrow>
                       (case read_loop parse (stream_start st) reads of
                          (st', None) \<Rightarrow> finish st'
                        | (st', Some e) \<Rightarrow> finish (on_error e st')))))"

subsection \<open>Vocabulary of the statements\<close>

text \<open>The JSON value of one event that carries the text \<open>s\<close>:
  \<open>{"choices":[{"delta":{"content":s}}]}\<close>.\<close>

definition delta_event :: "string \<Rightarrow> json" where
  "delta_event s =
     JObj [(''choices'', JArr [JObj [(''delta'', JObj [(''content'', JStr s)])]])]"

text \<open>The payload of such an event for a text without quotes, backslashes or control
  characters, and the line that carries it.\<close>

definition payload :: "string \<Rightarrow> string" where
  \<open>payload s = ''{"choices":[{"delta":{"content":"'' @ s @ ''"}}]}''\<close>

definition data_line :: "string \<Rightarrow> string" where
  "data_line p = ''data: '' @ p"

text \<open>What \<open>JSON.parse\<close> returns on the payloads of the examples below; the examples
  apply the parser to no other text.\<close>

definition example_parse :: "string \<Rightarrow> json option" where
  "example_parse =
     map_of
       [(payload ''Hello '', delta_event ''Hello ''),
        (payload ''[Calling tool: Search - querying corpus]'',
           delta_event ''[Calling tool: Search - querying corpus]''),
        (payload ''Result: X'', delta_event ''Result: X''),
        (payload '' '', delta_event '' ''),
        (payload ''Hello world '', delta_event ''Hello world ''),
        (payload ''more'', delta_event ''more''),
        (payload ''X'', delta_event ''X'')]"

text \<open>Reads that all deliver a chunk, each with its answer to the render question.\<close>

definition chunk_reads :: "(bool \<times> string) list \<Rightarrow> (bool \<times> read_result) list" where
  "chunk_reads rcs = map (\<lambda>(rendered, chunk). (rendered, Chunk chunk)) rcs"

text \<open>The tool calls of a message are stored trimmed, and no two of them have the same
  name and description when compared trimmed.\<close>

definition stored_trimmed :: "Message \<Rightarrow> bool" where
  "stored_trimmed m =
     (case toolCalls m of
        None \<Rightarrow> True
      | Some calls \<Rightarrow>
          list_all (\<lambda>call. trim (name call) = name call
                         \<and> trim (description call) = description call) calls)"

definition unique_calls :: "Message \<Rightarrow> bool" where
  "unique_calls m =
     (case toolCalls m of
        None \<Rightarrow> True
      | Some calls \<Rightarrow>
          distinct (map (\<lambda>call. (trim (name call), trim (description call))) calls))"

definition calls_ok :: "Message list \<Rightarrow> bool" where
  "calls_ok ms = list_all (\<lambda>m. stored_trimmed m \<and> unique_calls m) ms"

text \<open>The same for the messages that queued updaters will append.\<close>

fun updater_ok :: "updater \<Rightarrow> bool" where
  "updater_ok (Append m) = (stored_trimmed m \<and> unique_calls m)"
| "updater_ok _ = True"

definition stream_ok :: "('a Stream_scheme) \<Rightarrow> bool" where
  "stream_ok st = (calls_ok (messages st) \<and> list_all updater_ok (pending st))"

definition system_count :: "Message list \<Rightarrow> nat" where
  "system_count ms = length (filter (\<lambda>m. role m = System) ms)"

text \<open>The system messages of the transcript together with those that queued updaters
  will append.\<close>

fun adds_system :: "updater \<Rightarrow> bool" where
  "adds_system (Append m) = (role m = System)"
| "adds_system _ = False"

definition system_total :: "('a Stream_scheme) \<Rightarrow> nat" where
  "system_total st = system_count (messages st) + length (filter adds_system (pending st))"

text \<open>The settings the component starts with (lines 27 to 31), a research idea typed in,
  and an empty transcript.\<close>

definition example_chat :: Chat where
  "example_chat =
     \<lparr>messages = [],
      isStreaming = False,
      settings = \<lparr>domain = ''AI for Drug Discovery'', numHypotheses = 3,
                  researchIdea = ''protein folding''\<rparr>\<rparr>"

section \<open>Lines of a chunk\<close>

lemma js_split_Nil: "sep \<noteq> [] \<Longrightarrow> js_split [] sep = [[]]"
  by (simp add: js_split.simps)

lemma js_split_not_Nil: "sep \<noteq> [] \<Longrightarrow> js_split s sep \<noteq> []"
  by (subst js_split.simps) (simp split: option.splits)

lemma chunk_lines_Nil: "chunk_lines [] = [[]]"
  by (simp add: chunk_lines_def js_split_Nil)

lemma chunk_lines_not_Nil: "chunk_lines s \<noteq> []"
  by (simp add: chunk_lines_def js_split_not_Nil)

lemma chunk_lines_Cons:
  "chunk_lines (c # cs) =
     (if c = CHR 0x0A then [] # chunk_lines cs
      else (c # hd (chunk_lines cs)) # tl (chunk_lines cs))"
proof (cases "c = CHR 0x0A")
  case True
  then show ?thesis
    unfolding chunk_lines_def by (subst js_split.simps) simp
next
  case False
  have "js_split (c # cs) [CHR 0x0A] =
          (c # hd (js_split cs [CHR 0x0A])) # tl (js_split cs [CHR 0x0A])"
    using False
    by (subst js_split.simps, subst (2 3) js_split.simps) (simp split: option.splits)
  with False show ?thesis
    by (simp add: chunk_lines_def)
qed

text \<open>Splitting a concatenation: the last line of the first part and the first line of
  the second part are one line of the whole.\<close>

lemma chunk_lines_append:
  "chunk_lines (a @ b) =
     butlast (chunk_lines a) @ (last (chunk_lines a) @ hd (chunk_lines b)) # tl (chunk_lines b)"
proof (induction a)
  case Nil
  then show ?case
    using chunk_lines_not_Nil [of b] by (simp add: chunk_lines_Nil)
next
  case (Cons c a)
  then show ?case
    using chunk_lines_not_Nil [of a] chunk_lines_not_Nil [of "a @ b"]
    by (cases "chunk_lines a") (auto simp: chunk_lines_Cons)
qed

lemma last_chunk_lines:
  "last (chunk_lines a) = [] \<longleftrightarrow> a = [] \<or> last a = CHR 0x0A"
proof (cases a rule: rev_cases)
  case Nil
  then show ?thesis by (simp add: chunk_lines_Nil)
next
  case (snoc a' c)
  have "chunk_lines [c] = (if c = CHR 0x0A then [[], []] else [[c]])"
    by (simp add: chunk_lines_Cons chunk_lines_Nil)
  with snoc show ?thesis
    by (simp add: chunk_lines_append)
qed

lemma nonempty_lines_append:
  assumes "a = [] \<or> last a = CHR 0x0A"
  shows "filter (\<lambda>l. l \<noteq> []) (chunk_lines (a @ b)) =
         filter (\<lambda>l. l \<noteq> []) (chunk_lines a) @ filter (\<lambda>l. l \<noteq> []) (chunk_lines b)"
proof -
  from assms have e: "last (chunk_lines a) = []"
    by (simp add: last_chunk_lines)
  have a: "chunk_lines a = butlast (chunk_lines a) @ [[]]"
    using e chunk_lines_not_Nil [of a] append_butlast_last_id [of "chunk_lines a"] by simp
  have b: "chunk_lines b = hd (chunk_lines b) # tl (chunk_lines b)"
    using chunk_lines_not_Nil [of b] by simp
  have "filter (\<lambda>l. l \<noteq> []) (chunk_lines a) = filter (\<lambda>l. l \<noteq> []) (butlast (chunk_lines a))"
    by (subst a) simp
  moreover have "filter (\<lambda>l. l \<noteq> []) (chunk_lines b) =
      filter (\<lambda>l. l \<noteq> []) (hd (chunk_lines b) # tl (chunk_lines b))"
    using b by simp
  ultimately show ?thesis
    by (simp add: chunk_lines_append e)
qed

lemma nonempty_lines_concat:
  "\<forall>c \<in> set chunks. c = [] \<or> last c = CHR 0x0A \<Longrightarrow>
   filter (\<lambda>l. l \<noteq> []) (concat (map chunk_lines chunks)) =
   filter (\<lambda>l. l \<noteq> []) (chunk_lines (concat chunks))"
proof (induction chunks)
  case Nil
  then show ?case by (simp add: chunk_lines_Nil)
next
  case (Cons c chunks)
  then show ?case
    by (simp add: nonempty_lines_append)
qed

lemma process_line_Nil: "process_line parse st [] = st"
  by (simp add: process_line_def startsWith_def)

lemma process_lines_append:
  "process_lines parse st (xs @ ys) = process_lines parse (process_lines parse st xs) ys"
  by (induction xs arbitrary: st) simp_all

lemma process_lines_nonempty:
  "process_lines parse st (filter (\<lambda>l. l \<noteq> []) ls) = process_lines parse st ls"
  by (induction ls arbitrary: st) (simp_all add: process_line_Nil)

text \<open>
  Claim C1, as the code has it. The loop keeps nothing between two chunks: each chunk is
  split at its newlines on its own. When every chunk is empty or ends with a newline
  (the boundaries fall right after a newline), reading the chunks one at a time gives the
  same non-empty lines, in the same order, as reading their concatenation as one chunk.
\<close>

theorem chunks_cut_after_newlines:
  assumes "\<forall>c \<in> set chunks. c = [] \<or> last c = CHR 0x0A"
  shows "filter (\<lambda>l. l \<noteq> []) (concat (map chunk_lines chunks)) =
           filter (\<lambda>l. l \<noteq> []) (chunk_lines (concat chunks))"
  using assms by (rule nonempty_lines_concat)

theorem chunks_cut_after_newlines_witness:
  "last (data_line (payload ''Hello '') @ [CHR 0x0A]) = CHR 0x0A
   \<and> last (data_line (payload ''Result: X'') @ [CHR 0x0A]) = CHR 0x0A
   \<and> filter (\<lambda>l. l \<noteq> [])
        (concat (map chunk_lines [data_line (payload ''Hello '') @ [CHR 0x0A],
                                  data_line (payload ''Result: X'') @ [CHR 0x0A]])) =
      filter (\<lambda>l. l \<noteq> [])
        (chunk_lines (concat [data_line (payload ''Hello '') @ [CHR 0x0A],
                              data_line (payload ''Result: X'') @ [CHR 0x0A]]))"
proof -
  have h: "\<forall>c \<in> set [data_line (payload ''Hello '') @ [CHR 0x0A],
                       data_line (payload ''Result: X'') @ [CHR 0x0A]].
             c = [] \<or> last c = CHR 0x0A"
    by simp
  from chunks_cut_after_newlines [OF h]
  show ?thesis
    by simp
qed

text \<open>
  Claim C1, as the spec states it, fails when a boundary falls inside a line: the chunks
  \<open>ab\<close> and \<open>c\<newline>\<close> give the lines \<open>ab\<close>, \<open>c\<close> and the empty line, the single chunk
  \<open>abc\<newline>\<close> gives \<open>abc\<close> and the empty line. Nothing is carried over to the next chunk.
\<close>

theorem chunk_boundary_counterexample:
  "concat (map chunk_lines [''ab'', ''c\<newline>'']) \<noteq> chunk_lines (concat [''ab'', ''c\<newline>''])"
  by code_simp

text \<open>The same boundary inside an event: the event is lost, where the whole line would
  have put its text into the message.\<close>

lemma split_event_is_lost:
  "map content (messages (handleSubmit example_parse
       (Response True 200
          (Some [(True, Chunk ''data: {\"choices\":[{\"delta\":{\"con''),
                 (True, Chunk ''tent\":\"Hello \"}}]}\<newline>'')]))
       example_chat))
     = [user_text (settings example_chat), []]
   \<and> map content (messages (handleSubmit example_parse
       (Response True 200
          (Some [(True, Chunk ''data: {\"choices\":[{\"delta\":{\"content\":\"Hello \"}}]}\<newline>'')]))
       example_chat))
     = [user_text (settings example_chat), ''Hello '']"
  by code_simp

section \<open>Cutting strings\<close>

subsection \<open>\<open>includes\<close>, \<open>split\<close> and \<open>join\<close>\<close>

lemma includes_iff: "js_includes s p \<longleftrightarrow> (\<exists>pre post. s = pre @ p @ post)"
proof (induction s)
  case Nil
  then show ?case by auto
next
  case (Cons c cs)
  show ?case
  proof
    assume "js_includes (c # cs) p"
    then consider "prefix p (c # cs)" | "js_includes cs p" by auto
    then show "\<exists>pre post. c # cs = pre @ p @ post"
    proof cases
      case 1
      then obtain post where "c # cs = [] @ p @ post" by (auto simp: prefix_def)
      then show ?thesis by blast
    next
      case 2
      with Cons.IH obtain pre post where "cs = pre @ p @ post" by blast
      then have "c # cs = (c # pre) @ p @ post" by simp
      then show ?thesis by blast
    qed
  next
    assume "\<exists>pre post. c # cs = pre @ p @ post"
    then obtain pre post where e: "c # cs = pre @ p @ post" by blast
    show "js_includes (c # cs) p"
    proof (cases pre)
      case Nil
      with e have "prefix p (c # cs)" by (simp add: prefix_def)
      then show ?thesis by simp
    next
      case (Cons d pre')
      with e have "cs = pre' @ p @ post" by simp
      with Cons.IH have "js_includes cs p" by blast
      then show ?thesis by simp
    qed
  qed
qed

lemma find_sep_None: "sep \<noteq> [] \<Longrightarrow> find_sep sep s = None \<longleftrightarrow> \<not> js_includes s sep"
  by (induction s) (auto split: option.splits)

lemma find_sep_Some: "find_sep sep s = Some (b, a) \<Longrightarrow> s = b @ sep @ a"
proof (induction s arbitrary: b)
  case Nil
  then show ?case by (simp split: if_splits)
next
  case (Cons c cs)
  show ?case
  proof (cases "prefix sep (c # cs)")
    case True
    with Cons.prems show ?thesis
      by (auto simp: prefix_def)
  next
    case False
    with Cons.prems obtain b' where "find_sep sep cs = Some (b', a)" "b = c # b'"
      by (auto split: option.splits)
    with Cons.IH show ?thesis by simp
  qed
qed

lemma prefix_short: "prefix p (x @ y) \<Longrightarrow> length p \<le> length x \<Longrightarrow> prefix p x"
  by (auto simp: prefix_append)

lemma find_sep_first:
  assumes "sep \<noteq> []" "\<not> js_includes (b @ butlast sep) sep"
  shows "find_sep sep (b @ sep @ a) = Some (b, a)"
  using assms(2)
proof (induction b)
  case Nil
  from assms(1) obtain x xs where "sep = x # xs" by (cases sep) auto
  then show ?case by simp
next
  case (Cons c b)
  from Cons.prems have np: "\<not> prefix sep (c # b @ butlast sep)"
    and rest: "\<not> js_includes (b @ butlast sep) sep"
    by simp_all
  have "\<not> prefix sep (c # b @ sep @ a)"
  proof
    assume "prefix sep (c # b @ sep @ a)"
    moreover have "sep @ a = butlast sep @ last sep # a"
      using assms(1) by (cases sep rule: rev_cases) simp_all
    ultimately have "prefix sep ((c # b @ butlast sep) @ (last sep # a))"
      by simp
    then have "prefix sep (c # b @ butlast sep)"
      by (rule prefix_short) simp
    with np show False by simp
  qed
  with Cons.IH [OF rest] show ?case by simp
qed

lemma js_join_split: "sep \<noteq> [] \<Longrightarrow> js_join (js_split s sep) sep = s"
proof (induction s sep rule: js_split.induct)
  case (1 s sep)
  show ?case
  proof (cases "find_sep sep s")
    case None
    with 1 show ?thesis by (subst js_split.simps) simp
  next
    case (Some p)
    obtain b a where p: "p = (b, a)" by (cases p)
    from 1 Some p have IH: "js_join (js_split a sep) sep = a" by simp
    obtain y ys where ys: "js_split a sep = y # ys"
      using js_split_not_Nil [OF "1.prems", of a] by (cases "js_split a sep") auto
    have "js_join (js_split s sep) sep = b @ sep @ js_join (js_split a sep) sep"
      using Some p "1.prems" ys by (subst js_split.simps) simp
    with IH find_sep_Some [of sep s b a] Some p show ?thesis by simp
  qed
qed

lemma chunk_lines_no_newline: "CHR 0x0A \<notin> set s \<Longrightarrow> chunk_lines s = [s]"
  by (induction s) (auto simp: chunk_lines_Nil chunk_lines_Cons)

subsection \<open>Name and description of a tool call\<close>

lemma split_tool_text_found:
  "find_sep '' - '' t = Some (b, a) \<Longrightarrow>
   split_tool_text t = Some (b, if a = [] then ''Running...'' else a)"
  unfolding split_tool_text_def
  by (subst js_split.simps) (simp add: js_join_split)

lemma split_tool_text_none:
  "find_sep '' - '' t = None \<Longrightarrow> split_tool_text t = Some (t, ''Running...'')"
  unfolding split_tool_text_def
  by (subst js_split.simps) simp

text \<open>
  Claim C8, as the code has it. The captured text is cut at the leftmost \<open>" - "\<close>:
  \<open>toolName\<close> is the text before it; \<open>toolDescription\<close> is all the text after it,
  further \<open>" - "\<close> included, when that text is not empty. When the captured text has no
  \<open>" - "\<close>, or nothing follows it, \<open>toolDescription\<close> is \<open>Running...\<close>.
  (\<open>b @ '' -''\<close> without \<open>" - "\<close> says that no occurrence begins before the one cut at.)
\<close>

theorem tool_text_split:
  "(\<not> js_includes t '' - '' \<longrightarrow> split_tool_text t = Some (t, ''Running...''))
   \<and> (\<not> js_includes (b @ '' -'') '' - '' \<longrightarrow>
        split_tool_text (b @ '' - '' @ a) = Some (b, if a = [] then ''Running...'' else a))"
proof (intro conjI impI)
  assume "\<not> js_includes t '' - ''"
  then have "find_sep '' - '' t = None"
    by (simp add: find_sep_None)
  then show "split_tool_text t = Some (t, ''Running...'')"
    by (rule split_tool_text_none)
next
  assume "\<not> js_includes (b @ '' -'') '' - ''"
  then have "find_sep '' - '' (b @ '' - '' @ a) = Some (b, a)"
    using find_sep_first [of "'' - ''" b a] by simp
  then show "split_tool_text (b @ '' - '' @ a) = Some (b, if a = [] then ''Running...'' else a)"
    by (rule split_tool_text_found)
qed

theorem tool_text_split_witness:
  "\<not> js_includes ''Search'' '' - ''
   \<and> split_tool_text ''Search'' = Some (''Search'', ''Running...'')
   \<and> \<not> js_includes (''Search'' @ '' -'') '' - ''
   \<and> split_tool_text (''Search'' @ '' - '' @ ''querying - corpus'')
        = Some (''Search'', ''querying - corpus'')"
  using tool_text_split [of "''Search''" "''Search''" "''querying - corpus''"]
  by simp

text \<open>
  Claim C8, as the spec states it, fails for the captured text \<open>Search - \<close>: the text
  after the separator is empty, and \<open>descParts.join(' - ') || 'Running...'\<close> puts
  \<open>Running...\<close> in its place.
\<close>

theorem tool_text_empty_description_counterexample:
  "toolCallMatch ''[Calling tool: Search - ]'' = Some (''Search'' @ '' - '' @ [])
   \<and> split_tool_text (''Search'' @ '' - '' @ []) \<noteq> Some (''Search'', [])"
  by code_simp

subsection \<open>The pattern \<open>/\[Calling tool: ([^\]]+)\]/\<close>\<close>

lemma match_here_Some_iff:
  "match_here s = Some g \<longleftrightarrow>
     (\<exists>post. s = ''[Calling tool: '' @ g @ '']'' @ post \<and> g \<noteq> [] \<and> CHR '']'' \<notin> set g)"
proof
  assume m: "match_here s = Some g"
  then have p: "prefix ''[Calling tool: '' s"
    by (simp add: match_here_def split: if_splits)
  then obtain rest where s: "s = ''[Calling tool: '' @ rest"
    by (auto simp: prefix_def)
  from m s have g: "g = takeWhile (\<lambda>c. c \<noteq> CHR '']'') rest" "g \<noteq> []"
    and d: "dropWhile (\<lambda>c. c \<noteq> CHR '']'') rest \<noteq> []"
    by (auto simp: match_here_def Let_def split: if_splits)
  from d have "hd (dropWhile (\<lambda>c. c \<noteq> CHR '']'') rest) = CHR '']''"
    using hd_dropWhile [of "\<lambda>c. c \<noteq> CHR '']''" rest] by simp
  with d obtain post where "dropWhile (\<lambda>c. c \<noteq> CHR '']'') rest = CHR '']'' # post"
    by (cases "dropWhile (\<lambda>c. c \<noteq> CHR '']'') rest") auto
  with g have "rest = g @ '']'' @ post"
    using takeWhile_dropWhile_id [of "\<lambda>c. c \<noteq> CHR '']''" rest] by simp
  moreover from g have "CHR '']'' \<notin> set g"
    by (auto dest: set_takeWhileD)
  ultimately show "\<exists>post. s = ''[Calling tool: '' @ g @ '']'' @ post \<and> g \<noteq> [] \<and> CHR '']'' \<notin> set g"
    using s g by auto
next
  assume "\<exists>post. s = ''[Calling tool: '' @ g @ '']'' @ post \<and> g \<noteq> [] \<and> CHR '']'' \<notin> set g"
  then obtain post where s: "s = ''[Calling tool: '' @ g @ '']'' @ post"
    and g: "g \<noteq> []" "CHR '']'' \<notin> set g"
    by auto
  from g have t: "takeWhile (\<lambda>c. c \<noteq> CHR '']'') (g @ CHR '']'' # post) = g"
    by (subst takeWhile_append2) auto
  from g have d: "dropWhile (\<lambda>c. c \<noteq> CHR '']'') (g @ CHR '']'' # post) = CHR '']'' # post"
    by (subst dropWhile_append2) auto
  show "match_here s = Some g"
    using g t d by (simp add: match_here_def s)
qed

lemma toolCallMatch_Some:
  "toolCallMatch s = Some g \<Longrightarrow>
     \<exists>pre post. s = pre @ ''[Calling tool: '' @ g @ '']'' @ post \<and> g \<noteq> [] \<and> CHR '']'' \<notin> set g"
proof (induction s)
  case Nil
  then show ?case by simp
next
  case (Cons c cs)
  show ?case
  proof (cases "match_here (c # cs)")
    case (Some h)
    with Cons.prems have "match_here (c # cs) = Some g" by simp
    then obtain post where "c # cs = [] @ ''[Calling tool: '' @ g @ '']'' @ post"
      "g \<noteq> []" "CHR '']'' \<notin> set g"
      by (auto simp: match_here_Some_iff)
    then show ?thesis by blast
  next
    case None
    with Cons.prems have "toolCallMatch cs = Some g" by simp
    from Cons.IH [OF this] obtain pre post where
      "cs = pre @ ''[Calling tool: '' @ g @ '']'' @ post" "g \<noteq> []" "CHR '']'' \<notin> set g"
      by blast
    then have "c # cs = (c # pre) @ ''[Calling tool: '' @ g @ '']'' @ post" by simp
    with \<open>g \<noteq> []\<close> \<open>CHR '']'' \<notin> set g\<close> show ?thesis by blast
  qed
qed

lemma toolCallMatch_found:
  assumes "g \<noteq> []" "CHR '']'' \<notin> set g"
  shows "toolCallMatch (pre @ ''[Calling tool: '' @ g @ '']'' @ post) \<noteq> None"
proof (induction pre)
  case Nil
  have "match_here (''[Calling tool: '' @ g @ '']'' @ post) = Some g"
    using assms by (auto simp: match_here_Some_iff)
  then show ?case by simp
next
  case (Cons c pre)
  then show ?case by (simp split: option.splits)
qed

lemma toolCallMatch_None_iff:
  "toolCallMatch s = None \<longleftrightarrow>
     \<not> (\<exists>pre g post. s = pre @ ''[Calling tool: '' @ g @ '']'' @ post
                        \<and> g \<noteq> [] \<and> CHR '']'' \<notin> set g)"
proof
  assume n: "toolCallMatch s = None"
  show "\<not> (\<exists>pre g post. s = pre @ ''[Calling tool: '' @ g @ '']'' @ post
                        \<and> g \<noteq> [] \<and> CHR '']'' \<notin> set g)"
  proof
    assume "\<exists>pre g post. s = pre @ ''[Calling tool: '' @ g @ '']'' @ post
                        \<and> g \<noteq> [] \<and> CHR '']'' \<notin> set g"
    then obtain pre g post where "s = pre @ ''[Calling tool: '' @ g @ '']'' @ post"
      "g \<noteq> []" "CHR '']'' \<notin> set g" by blast
    with toolCallMatch_found [of g pre post] n show False by simp
  qed
next
  assume a: "\<not> (\<exists>pre g post. s = pre @ ''[Calling tool: '' @ g @ '']'' @ post
                        \<and> g \<noteq> [] \<and> CHR '']'' \<notin> set g)"
  show "toolCallMatch s = None"
  proof (cases "toolCallMatch s")
    case None
    then show ?thesis .
  next
    case (Some g)
    from toolCallMatch_Some [OF this] a show ?thesis by blast
  qed
qed

lemma toolCallMatch_whole:
  assumes "g \<noteq> []" "CHR '']'' \<notin> set g"
  shows "toolCallMatch (''[Calling tool: '' @ g @ '']'' @ post) = Some g"
proof -
  have "match_here (''[Calling tool: '' @ g @ '']'' @ post) = Some g"
    using assms by (auto simp: match_here_Some_iff)
  then show ?thesis by simp
qed

lemma toolCallMatch_includes:
  assumes "toolCallMatch s = Some g"
  shows "js_includes s ''[Calling tool:''"
proof -
  from toolCallMatch_Some [OF assms] obtain pre post where
    "s = pre @ ''[Calling tool: '' @ g @ '']'' @ post" by blast
  then have "s = pre @ ''[Calling tool:'' @ ('' '' @ g @ '']'' @ post)" by simp
  then show ?thesis unfolding includes_iff by blast
qed

section \<open>One event\<close>

lemma length_add_tool_call [simp]: "length (add_tool_call n d ms) = length ms"
  by (cases ms rule: rev_cases) (simp_all add: add_tool_call_def Let_def)

lemma role_add_tool_call [simp]: "map role (add_tool_call n d ms) = map role ms"
  by (cases ms rule: rev_cases) (simp_all add: add_tool_call_def Let_def)

lemma content_add_tool_call [simp]: "map content (add_tool_call n d ms) = map content ms"
  by (cases ms rule: rev_cases) (simp_all add: add_tool_call_def Let_def)

lemma add_tool_call_snoc:
  "add_tool_call n d (ms @ [m]) =
     (if role m = Assistant then
        ms @ [m\<lparr>toolCalls :=
                Some (let calls = (case toolCalls m of None \<Rightarrow> [] | Some cs \<Rightarrow> cs) in
                      if list_ex (\<lambda>call. name call @ '' - '' @ description call
                                      = trim n @ '' - '' @ trim d) calls
                      then calls
                      else calls @ [\<lparr>name = trim n, description = trim d\<rparr>])\<rparr>]
      else ms @ [m])"
  by (simp add: add_tool_call_def Let_def)

lemma set_last_content_snoc:
  "set_last_content t (ms @ [m]) =
     (if role m = Assistant then ms @ [m\<lparr>content := t\<rparr>] else ms @ [m])"
  by (simp add: set_last_content_def Let_def)

lemma run_updaters_append:
  "run_updaters am ms (us @ vs) = run_updaters am (run_updaters am ms us) vs"
  by (induction us arbitrary: ms) simp_all

lemma run_updaters_snoc:
  "run_updaters am ms (us @ [u]) = run_updater am (run_updaters am ms us) u"
  by (simp add: run_updaters_append)

lemma render_fields [simp]:
  "messages (render st) = run_updaters (assistantMessage st) (messages st) (pending st)"
  "pending (render st) = []"
  "assistantMessage (render st) = assistantMessage st"
  "hasSeenToolCalls (render st) = hasSeenToolCalls st"
  "isStreaming (render st) = isStreaming st"
  "settings (render st) = settings st"
  by (simp_all add: render_def)

lemma render_render: "render (render st) = render st"
  by (simp add: render_def)

lemma render_flag: "render (st\<lparr>hasSeenToolCalls := b\<rparr>) = (render st)\<lparr>hasSeenToolCalls := b\<rparr>"
  by (simp add: render_def)

lemma render_setMessages:
  "messages (render (setMessages u st)) = run_updater (assistantMessage st) (messages (render st)) u"
  by (simp add: setMessages_def run_updaters_snoc)

lemma on_text_tool:
  "js_includes c ''[Calling tool:'' \<Longrightarrow>
   on_text st c = on_tool_call (st\<lparr>hasSeenToolCalls := True\<rparr>) c"
  by (simp add: on_text_def)

lemma on_text_no_match:
  "js_includes c ''[Calling tool:'' \<Longrightarrow> toolCallMatch c = None \<Longrightarrow>
   on_text st c = st\<lparr>hasSeenToolCalls := True\<rparr>"
  by (simp add: on_text_def on_tool_call_def)

lemma on_text_match:
  "js_includes c ''[Calling tool:'' \<Longrightarrow> toolCallMatch c = Some g \<Longrightarrow>
   split_tool_text g = Some (n, d) \<Longrightarrow>
   on_text st c = st\<lparr>hasSeenToolCalls := True, pending := pending st @ [AddToolCall n d]\<rparr>"
  by (simp add: on_text_def on_tool_call_def setMessages_def)

lemma on_text_segment_break:
  "\<not> js_includes p ''[Calling tool:'' \<Longrightarrow> hasSeenToolCalls st \<Longrightarrow> trim p \<noteq> [] \<Longrightarrow>
   on_text st p = st\<lparr>pending := pending st @ [Append (new_assistant p)],
                      assistantMessage := p, hasSeenToolCalls := False\<rparr>"
  by (simp add: on_text_def setMessages_def)

lemma on_text_accumulate:
  "\<not> js_includes p ''[Calling tool:'' \<Longrightarrow> \<not> (hasSeenToolCalls st \<and> trim p \<noteq> []) \<Longrightarrow>
   on_text st p = st\<lparr>assistantMessage := assistantMessage st @ p,
                      pending := pending st @ [SetContent]\<rparr>"
  by (auto simp add: on_text_def setMessages_def)

lemma on_tool_call_fields:
  "assistantMessage (on_tool_call st c) = assistantMessage st"
  "hasSeenToolCalls (on_tool_call st c) = hasSeenToolCalls st"
  "messages (on_tool_call st c) = messages st"
  by (simp_all add: on_tool_call_def setMessages_def split: option.splits prod.splits)

lemma render_on_tool_call:
  "map content (messages (render (on_tool_call st c))) = map content (messages (render st))"
  "map role (messages (render (on_tool_call st c))) = map role (messages (render st))"
  by (simp_all add: on_tool_call_def setMessages_def run_updaters_snoc
      split: option.splits prod.splits)

lemma messages_example_chat: "messages example_chat = []"
  by (simp add: example_chat_def)

text \<open>
  Claim C9. When the text of an event contains \<open>[Calling tool:\<close>, no message content
  changes, no message is added and the accumulated text stays as it was: the prose around
  the annotation goes nowhere. The outcome is that of the matched annotation alone, and
  that outcome is the tool call on the last message: its trimmed name and description are
  added to the tool calls of an assistant message unless a call with the same name and
  description is there already. (\<open>render\<close> shows the transcript once React has run the
  queued updaters.)
\<close>

theorem mixed_chunk:
  assumes "js_includes c ''[Calling tool:''"
  shows "map content (messages (render (on_text st c))) = map content (messages (render st))
       \<and> map role (messages (render (on_text st c))) = map role (messages (render st))
       \<and> assistantMessage (on_text st c) = assistantMessage st
       \<and> (toolCallMatch c = Some g \<longrightarrow>
            on_text st c = on_text st (''[Calling tool: '' @ g @ '']''))
       \<and> (toolCallMatch c = Some g \<longrightarrow> split_tool_text g = Some (n, d) \<longrightarrow>
            messages (render st) = ms @ [m] \<longrightarrow> role m = Assistant \<longrightarrow>
            messages (render (on_text st c)) =
              ms @ [m\<lparr>toolCalls :=
                      Some (let calls = (case toolCalls m of None \<Rightarrow> [] | Some cs \<Rightarrow> cs) in
                            if list_ex (\<lambda>call. name call @ '' - '' @ description call
                                            = trim n @ '' - '' @ trim d) calls
                            then calls
                            else calls @ [\<lparr>name = trim n, description = trim d\<rparr>])\<rparr>])"
proof (intro conjI impI)
  have r: "render (st\<lparr>hasSeenToolCalls := True\<rparr>) = (render st)\<lparr>hasSeenToolCalls := True\<rparr>"
    by (rule render_flag)
  show "map content (messages (render (on_text st c))) = map content (messages (render st))"
    using assms render_on_tool_call(1) [of "st\<lparr>hasSeenToolCalls := True\<rparr>" c]
    by (simp add: on_text_tool)
  show "map role (messages (render (on_text st c))) = map role (messages (render st))"
    using assms render_on_tool_call(2) [of "st\<lparr>hasSeenToolCalls := True\<rparr>" c]
    by (simp add: on_text_tool)
  show "assistantMessage (on_text st c) = assistantMessage st"
    using assms by (simp add: on_text_tool on_tool_call_fields)
next
  assume m: "toolCallMatch c = Some g"
  from toolCallMatch_Some [OF m] have g: "g \<noteq> []" "CHR '']'' \<notin> set g" by auto
  from toolCallMatch_whole [OF g, of "[]"]
  have w: "toolCallMatch (''[Calling tool: '' @ g @ '']'') = Some g" by simp
  from toolCallMatch_includes [OF w]
  have "js_includes (''[Calling tool: '' @ g @ '']'') ''[Calling tool:''" .
  then have "on_text st (''[Calling tool: '' @ g @ '']'') =
      on_tool_call (st\<lparr>hasSeenToolCalls := True\<rparr>) (''[Calling tool: '' @ g @ '']'')"
    by (rule on_text_tool)
  with m w assms show "on_text st c = on_text st (''[Calling tool: '' @ g @ '']'')"
    by (simp add: on_text_tool on_tool_call_def)
next
  assume m: "toolCallMatch c = Some g" and s: "split_tool_text g = Some (n, d)"
    and r: "messages (render st) = ms @ [m]" and a: "role m = Assistant"
  from on_text_match [OF assms m s]
  have "on_text st c = setMessages (AddToolCall n d) (st\<lparr>hasSeenToolCalls := True\<rparr>)"
    by (simp add: setMessages_def)
  then have "messages (render (on_text st c)) = add_tool_call n d (messages (render st))"
    by (simp add: setMessages_def run_updaters_snoc)
  with r a show "messages (render (on_text st c)) =
              ms @ [m\<lparr>toolCalls :=
                      Some (let calls = (case toolCalls m of None \<Rightarrow> [] | Some cs \<Rightarrow> cs) in
                            if list_ex (\<lambda>call. name call @ '' - '' @ description call
                                            = trim n @ '' - '' @ trim d) calls
                            then calls
                            else calls @ [\<lparr>name = trim n, description = trim d\<rparr>])\<rparr>]"
    by (simp add: add_tool_call_snoc)
qed

theorem mixed_chunk_witness:
  "js_includes ''Looking. [Calling tool: Search - querying corpus] Done.'' ''[Calling tool:''
   \<and> toolCallMatch ''Looking. [Calling tool: Search - querying corpus] Done.''
       = Some ''Search - querying corpus''
   \<and> split_tool_text ''Search - querying corpus'' = Some (''Search'', ''querying corpus'')
   \<and> messages (render (stream_start (submit_user example_chat)))
       = [\<lparr>role = User, content = user_text (settings example_chat), toolCalls = None\<rparr>]
         @ [new_assistant []]
   \<and> role (new_assistant []) = Assistant
   \<and> map content (messages (render (on_text (stream_start (submit_user example_chat))
        ''Looking. [Calling tool: Search - querying corpus] Done.'')))
       = [user_text (settings example_chat), []]
   \<and> assistantMessage (on_text (stream_start (submit_user example_chat))
        ''Looking. [Calling tool: Search - querying corpus] Done.'') = []
   \<and> on_text (stream_start (submit_user example_chat))
        ''Looking. [Calling tool: Search - querying corpus] Done.''
       = on_text (stream_start (submit_user example_chat))
           ''[Calling tool: Search - querying corpus]''
   \<and> messages (render (on_text (stream_start (submit_user example_chat))
        ''Looking. [Calling tool: Search - querying corpus] Done.''))
       = [\<lparr>role = User, content = user_text (settings example_chat), toolCalls = None\<rparr>,
          \<lparr>role = Assistant, content = [],
            toolCalls = Some [\<lparr>name = ''Search'', description = ''querying corpus''\<rparr>]\<rparr>]"
proof -
  define st where "st = stream_start (submit_user example_chat)"
  define c where "c = ''Looking. [Calling tool: Search - querying corpus] Done.''"
  have a: "js_includes c ''[Calling tool:''"
    unfolding c_def by code_simp
  have m: "toolCallMatch c = Some ''Search - querying corpus''"
    unfolding c_def by code_simp
  have s: "split_tool_text ''Search - querying corpus'' = Some (''Search'', ''querying corpus'')"
    by code_simp
  have tr: "trim ''Search'' = ''Search''" "trim ''querying corpus'' = ''querying corpus''"
    by code_simp+
  have r: "messages (render st)
       = [\<lparr>role = User, content = user_text (settings example_chat), toolCalls = None\<rparr>]
         @ [new_assistant []]"
    by (simp add: st_def stream_start_def submit_user_def setMessages_def messages_example_chat)
  have ro: "role (new_assistant []) = Assistant"
    by (simp add: new_assistant_def)
  note t = mixed_chunk [OF a, of st "''Search - querying corpus''" "''Search''"
      "''querying corpus''"
      "[\<lparr>role = User, content = user_text (settings example_chat), toolCalls = None\<rparr>]"
      "new_assistant []"]
  have rc: "map content (messages (render st)) = [user_text (settings example_chat), []]"
    by (simp only: r) (simp add: new_assistant_def)
  from t have "map content (messages (render (on_text st c))) = map content (messages (render st))"
    by (rule conjunct1)
  with rc have 1: "map content (messages (render (on_text st c)))
       = [user_text (settings example_chat), []]"
    by (simp only:)
  from t have "assistantMessage (on_text st c) = assistantMessage st"
    by blast
  moreover have "assistantMessage st = []"
    by (simp add: st_def stream_start_def setMessages_def)
  ultimately have 2: "assistantMessage (on_text st c) = []"
    by (simp only:)
  from t m have 3: "on_text st c = on_text st (''[Calling tool: '' @ ''Search - querying corpus'' @ '']'')"
    by blast
  from t m s r ro have "messages (render (on_text st c)) =
      [\<lparr>role = User, content = user_text (settings example_chat), toolCalls = None\<rparr>] @
      [(new_assistant [])\<lparr>toolCalls :=
          Some (let calls = (case toolCalls (new_assistant []) of None \<Rightarrow> [] | Some cs \<Rightarrow> cs) in
                if list_ex (\<lambda>call. name call @ '' - '' @ description call
                              = trim ''Search'' @ '' - '' @ trim ''querying corpus'') calls
                then calls
                else calls @ [\<lparr>name = trim ''Search'',
                               description = trim ''querying corpus''\<rparr>])\<rparr>]"
    by blast
  also have "\<dots> = [\<lparr>role = User, content = user_text (settings example_chat), toolCalls = None\<rparr>,
          \<lparr>role = Assistant, content = [],
            toolCalls = Some [\<lparr>name = ''Search'', description = ''querying corpus''\<rparr>]\<rparr>]"
    by (simp add: new_assistant_def tr)
  finally have 4: "messages (render (on_text st c))
       = [\<lparr>role = User, content = user_text (settings example_chat), toolCalls = None\<rparr>,
          \<lparr>role = Assistant, content = [],
            toolCalls = Some [\<lparr>name = ''Search'', description = ''querying corpus''\<rparr>]\<rparr>]" .
  have three: "on_text st c = on_text st ''[Calling tool: Search - querying corpus]''"
    using 3 by simp
  from a m s r ro 1 2 three 4 show ?thesis
    unfolding st_def c_def by (intro conjI)
qed

text \<open>
  Claim C10. A text that contains \<open>[Calling tool:\<close> but no complete annotation (the
  marker, a space, one or more characters other than \<open>]\<close>, then \<open>]\<close>) changes nothing
  but the flag \<open>hasSeenToolCalls\<close>, which becomes true; so the next prose that is not
  blank queues a new assistant message, which is the last message of the transcript once
  rendered, instead of extending the current one.
\<close>

theorem unclosed_annotation:
  assumes "js_includes c ''[Calling tool:''"
    and "\<not> (\<exists>pre g post. c = pre @ ''[Calling tool: '' @ g @ '']'' @ post
                          \<and> g \<noteq> [] \<and> CHR '']'' \<notin> set g)"
  shows "on_text st c = st\<lparr>hasSeenToolCalls := True\<rparr>
       \<and> (\<not> js_includes p ''[Calling tool:'' \<longrightarrow> trim p \<noteq> [] \<longrightarrow>
            on_text (on_text st c) p =
              st\<lparr>pending := pending st @ [Append (new_assistant p)],
                 assistantMessage := p, hasSeenToolCalls := False\<rparr>
            \<and> messages (render (on_text (on_text st c) p)) =
                messages (render (st\<lparr>assistantMessage := p\<rparr>)) @ [new_assistant p])"
proof -
  from assms(2) have "toolCallMatch c = None"
    using toolCallMatch_None_iff [of c] by blast
  with assms(1) have 1: "on_text st c = st\<lparr>hasSeenToolCalls := True\<rparr>"
    by (rule on_text_no_match)
  then show ?thesis
    by (simp add: on_text_segment_break run_updaters_snoc)
qed

theorem unclosed_annotation_witness:
  "js_includes ''see [Calling tool: Search'' ''[Calling tool:''
   \<and> toolCallMatch ''see [Calling tool: Search'' = None
   \<and> on_text (stream_start (submit_user example_chat)) ''see [Calling tool: Search''
       = (stream_start (submit_user example_chat))\<lparr>hasSeenToolCalls := True\<rparr>
   \<and> \<not> js_includes ''Result: X'' ''[Calling tool:''
   \<and> trim ''Result: X'' \<noteq> []
   \<and> messages (render (on_text (on_text (stream_start (submit_user example_chat))
        ''see [Calling tool: Search'') ''Result: X''))
       = [\<lparr>role = User, content = user_text (settings example_chat), toolCalls = None\<rparr>,
          new_assistant [], new_assistant ''Result: X'']"
proof -
  define st where "st = stream_start (submit_user example_chat)"
  have a: "js_includes ''see [Calling tool: Search'' ''[Calling tool:''"
    by code_simp
  have n: "toolCallMatch ''see [Calling tool: Search'' = None"
    by code_simp
  then have b: "\<not> (\<exists>pre g post. ''see [Calling tool: Search'' = pre @ ''[Calling tool: '' @ g @ '']'' @ post
                          \<and> g \<noteq> [] \<and> CHR '']'' \<notin> set g)"
    using toolCallMatch_None_iff [of "''see [Calling tool: Search''"] by blast
  have c: "\<not> js_includes ''Result: X'' ''[Calling tool:''"
    by code_simp
  have d: "trim ''Result: X'' \<noteq> []"
    by code_simp
  note t = unclosed_annotation [OF a b, of st "''Result: X''"]
  from t have 1: "on_text st ''see [Calling tool: Search'' = st\<lparr>hasSeenToolCalls := True\<rparr>"
    by (rule conjunct1)
  from t c d have "messages (render (on_text (on_text st ''see [Calling tool: Search'')
        ''Result: X'')) =
      messages (render (st\<lparr>assistantMessage := ''Result: X''\<rparr>)) @ [new_assistant ''Result: X'']"
    by blast
  then have 2: "messages (render (on_text (on_text st ''see [Calling tool: Search'')
        ''Result: X''))
       = [\<lparr>role = User, content = user_text (settings example_chat), toolCalls = None\<rparr>,
          new_assistant [], new_assistant ''Result: X'']"
    by (simp add: st_def stream_start_def submit_user_def setMessages_def messages_example_chat)
  from a n c d 1 2 show ?thesis
    unfolding st_def by (intro conjI)
qed

section \<open>Lines\<close>

lemma process_line_event:
  assumes "p \<noteq> ''[DONE]''" "parse p = Some (delta_event s)"
  shows "process_line parse st (data_line p) = (if s = [] then st else on_text st s)"
  using assms
  by (simp add: process_line_def startsWith_def data_line_def delta_content_def delta_event_def)

lemma process_line_done: "process_line parse st (data_line ''[DONE]'') = st"
  by (simp add: process_line_def startsWith_def data_line_def)

lemma process_line_bad:
  "startsWith line ''data: '' \<Longrightarrow> parse (drop 6 line) = None \<Longrightarrow> process_line parse st line = st"
  by (simp add: process_line_def Let_def)

text \<open>
  Claim C2, as the code has it. A line whose payload is \<open>[DONE]\<close> is skipped
  (\<open>continue\<close>): it changes nothing itself, and the lines after it are processed as if
  the sentinel line were not there.
\<close>

theorem done_sentinel_skipped:
  "process_line parse st (data_line ''[DONE]'') = st
   \<and> process_lines parse st (xs @ data_line ''[DONE]'' # ys) = process_lines parse st (xs @ ys)"
  by (simp add: process_lines_append process_line_done)

text \<open>
  Claim C2, as the spec states it, fails: an event that follows \<open>data: [DONE]\<close>, in the
  same chunk or in the next one, still puts its text into the transcript.
\<close>

theorem done_sentinel_counterexample:
  "messages (render (process_chunk example_parse (stream_start (submit_user example_chat))
      (data_line ''[DONE]'' @ [CHR 0x0A] @ data_line (payload ''Hello ''))))
     \<noteq> messages (render (stream_start (submit_user example_chat)))
   \<and> messages (render (fst (read_loop example_parse (stream_start (submit_user example_chat))
      [(True, Chunk (data_line ''[DONE]'' @ [CHR 0x0A])),
       (True, Chunk (data_line (payload ''Hello '') @ [CHR 0x0A]))])))
     \<noteq> messages (render (stream_start (submit_user example_chat)))"
  by code_simp

text \<open>
  Claim C5. A line that starts with \<open>data: \<close> and whose payload does not parse leaves
  the state as it is, queued updaters included; the lines before and after it are
  processed as if it were not there, and the read loop goes on without an error.
\<close>

theorem malformed_line_skipped:
  assumes "startsWith line ''data: ''" and "parse (drop 6 line) = None"
  shows "process_line parse st line = st
       \<and> process_lines parse st (xs @ line # ys) = process_lines parse st (xs @ ys)
       \<and> (CHR 0x0A \<notin> set line \<longrightarrow>
            read_loop parse st [(rendered, Chunk line)] = (await_read rendered st, None))"
proof -
  from assms have skip: "process_line parse st' line = st'" for st' :: "'a Stream_scheme"
    by (rule process_line_bad)
  show ?thesis
    by (simp add: process_lines_append skip process_chunk_def chunk_lines_no_newline)
qed

theorem malformed_line_skipped_witness:
  "startsWith ''data: {not valid json'' ''data: ''
   \<and> example_parse (drop 6 ''data: {not valid json'') = None
   \<and> process_line example_parse (stream_start (submit_user example_chat))
        ''data: {not valid json''
       = stream_start (submit_user example_chat)
   \<and> process_lines example_parse (stream_start (submit_user example_chat))
        ([data_line (payload ''Hello '')] @ ''data: {not valid json'' #
         [data_line (payload ''Result: X'')])
       = process_lines example_parse (stream_start (submit_user example_chat))
           ([data_line (payload ''Hello '')] @ [data_line (payload ''Result: X'')])
   \<and> CHR 0x0A \<notin> set ''data: {not valid json''
   \<and> read_loop example_parse (stream_start (submit_user example_chat))
        [(True, Chunk ''data: {not valid json'')]
       = (await_read True (stream_start (submit_user example_chat)), None)"
proof -
  have a: "startsWith ''data: {not valid json'' ''data: ''"
    by (simp add: startsWith_def)
  have b: "example_parse (drop 6 ''data: {not valid json'') = None"
    by code_simp
  have c: "CHR 0x0A \<notin> set ''data: {not valid json''"
    by simp
  from malformed_line_skipped [of "''data: {not valid json''" example_parse
      "stream_start (submit_user example_chat)"
      "[data_line (payload ''Hello '')]" "[data_line (payload ''Result: X'')]" True, OF a b] a b c
  show ?thesis
    by blast
qed

section \<open>Tool calls of a message\<close>

lemma dropWhile_id: "xs = [] \<or> \<not> P (hd xs) \<Longrightarrow> dropWhile P xs = xs"
  by (cases xs) auto

lemma trim_ends:
  assumes "trim s \<noteq> []"
  shows "\<not> is_space (hd (trim s))" and "\<not> is_space (last (trim s))"
proof -
  define u where "u = dropWhile is_space s"
  define r where "r = dropWhile is_space (rev u)"
  have t: "trim s = rev r"
    by (simp add: trim_def u_def r_def)
  with assms have r: "r \<noteq> []"
    by simp
  have u: "u \<noteq> []"
  proof
    assume "u = []"
    then have "r = []" by (simp add: r_def)
    with r show False by contradiction
  qed
  from r have "\<not> is_space (hd r)"
    unfolding r_def by (rule hd_dropWhile)
  then show "\<not> is_space (last (trim s))"
    using r by (simp add: t last_rev)
  from u have hu: "\<not> is_space (hd u)"
    unfolding u_def by (rule hd_dropWhile)
  have "rev u = takeWhile is_space (rev u) @ r"
    by (simp add: r_def)
  then have "last (rev u) = last r"
    using r by (metis last_appendR)
  then have "last r = hd u"
    using u by (simp add: last_rev)
  with hu show "\<not> is_space (hd (trim s))"
    using r by (simp add: t hd_rev)
qed

lemma trim_idem: "trim (trim s) = trim s"
proof (cases "trim s = []")
  case True
  have "trim [] = []" by (simp add: trim_def)
  with True show ?thesis by simp
next
  case False
  from trim_ends [OF False] have h: "\<not> is_space (hd (trim s))" and l: "\<not> is_space (last (trim s))"
    by simp_all
  have 1: "dropWhile is_space (trim s) = trim s"
    using h by (simp add: dropWhile_id)
  have "hd (rev (trim s)) = last (trim s)"
    using False by (simp add: hd_rev)
  with l have 2: "dropWhile is_space (rev (trim s)) = rev (trim s)"
    by (simp add: dropWhile_id)
  show ?thesis
    by (subst (1) trim_def) (simp add: 1 2)
qed

lemma calls_ok_snoc: "calls_ok (ms @ [m]) \<longleftrightarrow> calls_ok ms \<and> stored_trimmed m \<and> unique_calls m"
  by (auto simp: calls_ok_def)

lemma calls_ok_Nil: "calls_ok []"
  by (simp add: calls_ok_def)

lemma new_assistant_ok: "stored_trimmed (new_assistant p) \<and> unique_calls (new_assistant p)"
  by (simp add: stored_trimmed_def unique_calls_def new_assistant_def)

lemma set_content_ok:
  "stored_trimmed (m\<lparr>content := t\<rparr>) = stored_trimmed m"
  "unique_calls (m\<lparr>content := t\<rparr>) = unique_calls m"
  by (simp_all add: stored_trimmed_def unique_calls_def)

lemma push_call_ok:
  assumes "list_all (\<lambda>call. trim (name call) = name call
                         \<and> trim (description call) = description call) calls"
    and "distinct (map (\<lambda>call. (trim (name call), trim (description call))) calls)"
    and "\<not> list_ex (\<lambda>call. name call @ '' - '' @ description call = trim n @ '' - '' @ trim d) calls"
  shows "list_all (\<lambda>call. trim (name call) = name call
                         \<and> trim (description call) = description call)
           (calls @ [\<lparr>name = trim n, description = trim d\<rparr>])"
    and "distinct (map (\<lambda>call. (trim (name call), trim (description call)))
           (calls @ [\<lparr>name = trim n, description = trim d\<rparr>]))"
proof -
  show "list_all (\<lambda>call. trim (name call) = name call
                         \<and> trim (description call) = description call)
           (calls @ [\<lparr>name = trim n, description = trim d\<rparr>])"
    using assms(1) by (simp add: trim_idem)
  have "(trim n, trim d) \<notin> set (map (\<lambda>call. (trim (name call), trim (description call))) calls)"
  proof
    assume "(trim n, trim d) \<in> set (map (\<lambda>call. (trim (name call), trim (description call))) calls)"
    then obtain call where c: "call \<in> set calls" "trim (name call) = trim n"
      "trim (description call) = trim d"
      by auto
    with assms(1) have "name call = trim n" "description call = trim d"
      by (auto simp: list_all_iff)
    with c(1) assms(3) show False
      by (auto simp: list_ex_iff)
  qed
  with assms(2) show "distinct (map (\<lambda>call. (trim (name call), trim (description call)))
           (calls @ [\<lparr>name = trim n, description = trim d\<rparr>]))"
    by (simp add: trim_idem)
qed

lemma calls_ok_add_tool_call: "calls_ok ms \<Longrightarrow> calls_ok (add_tool_call n d ms)"
proof (cases ms rule: rev_cases)
  case Nil
  then show ?thesis by (simp add: add_tool_call_def calls_ok_Nil)
next
  case (snoc ms' m)
  assume ok: "calls_ok ms"
  with snoc have ms': "calls_ok ms'" and t: "stored_trimmed m" and u: "unique_calls m"
    by (simp_all add: calls_ok_snoc)
  show ?thesis
  proof (cases "toolCalls m")
    case None
    then show ?thesis
      using snoc ms' push_call_ok [of "[]" n d]
      by (simp add: add_tool_call_snoc calls_ok_snoc stored_trimmed_def unique_calls_def)
  next
    case (Some calls)
    then show ?thesis
      using snoc ms' t u push_call_ok [of calls n d]
      by (simp add: add_tool_call_snoc calls_ok_snoc stored_trimmed_def unique_calls_def)
  qed
qed

lemma calls_ok_set_last_content: "calls_ok ms \<Longrightarrow> calls_ok (set_last_content t ms)"
  by (cases ms rule: rev_cases)
    (simp_all add: set_last_content_def set_last_content_snoc calls_ok_snoc set_content_ok)

lemma add_tool_call_idem: "add_tool_call n d (add_tool_call n d ms) = add_tool_call n d ms"
proof (cases ms rule: rev_cases)
  case Nil
  then show ?thesis by (simp add: add_tool_call_def)
next
  case (snoc ms' m)
  then show ?thesis
    by (simp add: add_tool_call_snoc Let_def)
qed


lemma calls_ok_run_updater:
  "calls_ok ms \<Longrightarrow> updater_ok u \<Longrightarrow> calls_ok (run_updater am ms u)"
  by (cases u)
    (simp_all add: calls_ok_snoc calls_ok_add_tool_call calls_ok_set_last_content)

lemma calls_ok_run_updaters:
  "calls_ok ms \<Longrightarrow> list_all updater_ok us \<Longrightarrow> calls_ok (run_updaters am ms us)"
  by (induction us arbitrary: ms) (simp_all add: calls_ok_run_updater)

lemma stream_ok_render: "stream_ok st \<Longrightarrow> stream_ok (render st)"
  by (simp add: stream_ok_def calls_ok_run_updaters)

lemma stream_ok_setMessages: "stream_ok st \<Longrightarrow> updater_ok u \<Longrightarrow> stream_ok (setMessages u st)"
  by (simp add: stream_ok_def setMessages_def)

lemma stream_ok_locals:
  "stream_ok (st\<lparr>assistantMessage := a\<rparr>) = stream_ok st"
  "stream_ok (st\<lparr>hasSeenToolCalls := b\<rparr>) = stream_ok st"
  by (simp_all add: stream_ok_def)

lemma stream_ok_on_text: "stream_ok st \<Longrightarrow> stream_ok (on_text st c)"
  by (simp add: on_text_def on_tool_call_def stream_ok_setMessages stream_ok_locals
      new_assistant_ok split: option.splits prod.splits)

lemma stream_ok_on_content: "stream_ok st \<Longrightarrow> stream_ok (on_content st v)"
  by (cases v) (simp_all add: stream_ok_on_text stream_ok_setMessages stream_ok_locals)

lemma stream_ok_process_line: "stream_ok st \<Longrightarrow> stream_ok (process_line parse st line)"
  by (simp add: process_line_def Let_def stream_ok_on_content split: option.splits sum.splits)

lemma stream_ok_process_lines: "stream_ok st \<Longrightarrow> stream_ok (process_lines parse st ls)"
  by (induction ls arbitrary: st) (simp_all add: stream_ok_process_line)

lemma stream_ok_await_read: "stream_ok st \<Longrightarrow> stream_ok (await_read rendered st)"
  by (simp add: await_read_def stream_ok_render)

lemma stream_ok_read_loop: "stream_ok st \<Longrightarrow> stream_ok (fst (read_loop parse st reads))"
proof (induction reads arbitrary: st)
  case Nil
  then show ?case by simp
next
  case (Cons r reads)
  obtain rendered res where r: "r = (rendered, res)"
    by (cases r)
  show ?case
  proof (cases res)
    case (Chunk chunk)
    have "stream_ok (process_chunk parse (await_read rendered st) chunk)"
      using Cons.prems by (simp add: process_chunk_def stream_ok_process_lines stream_ok_await_read)
    from Cons.IH [OF this] r Chunk show ?thesis
      by simp
  next
    case (ReadRejected e)
    with r Cons.prems show ?thesis
      by (simp add: stream_ok_await_read)
  qed
qed

lemma stream_ok_submit_user: "calls_ok (messages c) \<Longrightarrow> stream_ok (submit_user c)"
  by (simp add: stream_ok_def submit_user_def stored_trimmed_def unique_calls_def)

lemma stream_ok_stream_start: "stream_ok st \<Longrightarrow> stream_ok (stream_start st)"
  by (simp add: stream_start_def stream_ok_setMessages stream_ok_locals new_assistant_ok)

lemma stream_ok_on_error: "stream_ok st \<Longrightarrow> stream_ok (on_error e st)"
  by (simp add: on_error_def stream_ok_setMessages stored_trimmed_def unique_calls_def)

lemma calls_ok_finish: "stream_ok st \<Longrightarrow> calls_ok (messages (finish st))"
  using stream_ok_render [of st] by (simp add: finish_def stream_ok_def)

lemma calls_ok_handleSubmit:
  assumes "calls_ok (messages c)"
  shows "calls_ok (messages (handleSubmit parse net c))"
proof -
  have u: "stream_ok (submit_user c)"
    using assms by (rule stream_ok_submit_user)
  have loop: "stream_ok (fst (read_loop parse (stream_start (submit_user c)) reads))" for reads
    using u by (simp add: stream_ok_read_loop stream_ok_stream_start)
  show ?thesis
  proof (cases net)
    case (FetchRejected e)
    with assms u show ?thesis
      by (simp add: handleSubmit_def Let_def calls_ok_finish stream_ok_on_error)
  next
    case (Response ok status body)
    show ?thesis
    proof (cases body)
      case None
      with Response assms u show ?thesis
        by (simp add: handleSubmit_def Let_def calls_ok_finish stream_ok_on_error)
    next
      case (Some reads)
      obtain st e where r: "read_loop parse (stream_start (submit_user c)) reads = (st, e)"
        by (cases "read_loop parse (stream_start (submit_user c)) reads")
      with loop [of reads] have "stream_ok st" by simp
      with Some Response assms u r show ?thesis
        by (simp add: handleSubmit_def Let_def calls_ok_finish stream_ok_on_error
            split: option.splits)
    qed
  qed
qed

lemma render_on_text_tool:
  assumes "js_includes a ''[Calling tool:''"
  shows "render (on_text st a) =
     (case toolCallMatch a of
        None \<Rightarrow> (render st)\<lparr>hasSeenToolCalls := True\<rparr>
      | Some t \<Rightarrow>
          (case split_tool_text t of
             None \<Rightarrow> (render st)\<lparr>hasSeenToolCalls := True\<rparr>
           | Some (n, d) \<Rightarrow>
               (render st)\<lparr>hasSeenToolCalls := True,
                           messages := add_tool_call n d (messages (render st))\<rparr>))"
  using assms
  by (simp add: on_text_tool on_tool_call_def setMessages_def render_def run_updaters_snoc
      split: option.splits prod.splits)

lemma on_text_idem:
  assumes "js_includes a ''[Calling tool:''"
  shows "render (on_text (on_text st a) a) = render (on_text st a)"
proof -
  have "render (on_text (on_text st a) a) =
     (case toolCallMatch a of
        None \<Rightarrow> (render (on_text st a))\<lparr>hasSeenToolCalls := True\<rparr>
      | Some t \<Rightarrow>
          (case split_tool_text t of
             None \<Rightarrow> (render (on_text st a))\<lparr>hasSeenToolCalls := True\<rparr>
           | Some (n, d) \<Rightarrow>
               (render (on_text st a))\<lparr>hasSeenToolCalls := True,
                 messages := add_tool_call n d (messages (render (on_text st a)))\<rparr>))"
    using assms by (rule render_on_text_tool)
  then show ?thesis
    by (simp add: render_on_text_tool [OF assms, of st] add_tool_call_idem
        split: option.splits prod.splits)
qed

lemma on_text_twice_one_entry:
  assumes "toolCallMatch a = Some t" "split_tool_text t = Some (n, d)"
    and "messages (render st) = ms @ [m]" "role m = Assistant" "toolCalls m = Some []"
  shows "messages (render (on_text (on_text st a) a)) =
           ms @ [m\<lparr>toolCalls := Some [\<lparr>name = trim n, description = trim d\<rparr>]\<rparr>]"
proof -
  from assms(1) have inc: "js_includes a ''[Calling tool:''"
    by (rule toolCallMatch_includes)
  then have "messages (render (on_text (on_text st a) a)) = messages (render (on_text st a))"
    by (simp only: on_text_idem)
  also have "\<dots> = add_tool_call n d (messages (render st))"
    using assms(1,2) by (simp add: render_on_text_tool [OF inc])
  also have "\<dots> = ms @ [m\<lparr>toolCalls := Some [\<lparr>name = trim n, description = trim d\<rparr>]\<rparr>]"
    using assms(3,4,5) by (simp add: add_tool_call_snoc)
  finally show ?thesis .
qed

text \<open>
  Claim C4. If the tool calls of every message of the transcript are stored trimmed and
  pairwise different in name and description, as in an empty transcript, they are so
  after \<open>handleSubmit\<close>, at every read of the stream and after any lines, before and
  after React has run the queued updaters. An event whose text contains
  \<open>[Calling tool:\<close> gives, when it comes a second time, the transcript it gave the first
  time; on a message without tool calls the same annotation twice gives one entry.
\<close>

theorem tool_calls_deduplicated:
  assumes "calls_ok (messages c)"
  shows "calls_ok (messages (handleSubmit parse net c))
       \<and> calls_ok (messages (fst (read_loop parse (stream_start (submit_user c)) reads)))
       \<and> calls_ok (messages (render (fst (read_loop parse (stream_start (submit_user c)) reads))))
       \<and> calls_ok (messages (render (process_lines parse (stream_start (submit_user c)) lines)))
       \<and> (js_includes a ''[Calling tool:'' \<longrightarrow>
            render (on_text (on_text st a) a) = render (on_text st a))
       \<and> (toolCallMatch a = Some t \<longrightarrow> split_tool_text t = Some (n, d) \<longrightarrow>
            messages (render st) = ms @ [m] \<longrightarrow> role m = Assistant \<longrightarrow> toolCalls m = Some [] \<longrightarrow>
            messages (render (on_text (on_text st a) a)) =
              ms @ [m\<lparr>toolCalls := Some [\<lparr>name = trim n, description = trim d\<rparr>]\<rparr>])"
proof (intro conjI impI)
  have s: "stream_ok (stream_start (submit_user c))"
    using assms by (simp add: stream_ok_stream_start stream_ok_submit_user)
  show "calls_ok (messages (handleSubmit parse net c))"
    using assms by (rule calls_ok_handleSubmit)
  from stream_ok_read_loop [OF s, of parse reads]
  show "calls_ok (messages (fst (read_loop parse (stream_start (submit_user c)) reads)))"
    by (simp add: stream_ok_def)
  from stream_ok_render [OF stream_ok_read_loop [OF s, of parse reads]]
  show "calls_ok (messages (render (fst (read_loop parse (stream_start (submit_user c)) reads))))"
    by (simp only: stream_ok_def)
  from stream_ok_render [OF stream_ok_process_lines [OF s, of parse lines]]
  show "calls_ok (messages (render (process_lines parse (stream_start (submit_user c)) lines)))"
    by (simp only: stream_ok_def)
  show "render (on_text (on_text st a) a) = render (on_text st a)"
    if "js_includes a ''[Calling tool:''"
    using that by (rule on_text_idem)
  show "messages (render (on_text (on_text st a) a)) =
          ms @ [m\<lparr>toolCalls := Some [\<lparr>name = trim n, description = trim d\<rparr>]\<rparr>]"
    if "toolCallMatch a = Some t" "split_tool_text t = Some (n, d)"
      "messages (render st) = ms @ [m]" "role m = Assistant" "toolCalls m = Some []"
    using that by (rule on_text_twice_one_entry)
qed

theorem tool_calls_deduplicated_witness:
  "calls_ok (messages example_chat)
   \<and> calls_ok (messages (handleSubmit example_parse
        (Response True 200 (Some [(True, Chunk
           (data_line (payload ''[Calling tool: Search - querying corpus]'') @ [CHR 0x0A] @
            data_line (payload ''[Calling tool: Search - querying corpus]'') @ [CHR 0x0A]))]))
        example_chat))
   \<and> map toolCalls (messages (handleSubmit example_parse
        (Response True 200 (Some [(True, Chunk
           (data_line (payload ''[Calling tool: Search - querying corpus]'') @ [CHR 0x0A] @
            data_line (payload ''[Calling tool: Search - querying corpus]'') @ [CHR 0x0A]))]))
        example_chat))
       = [None, Some [\<lparr>name = ''Search'', description = ''querying corpus''\<rparr>]]
   \<and> js_includes ''[Calling tool: Search - querying corpus]'' ''[Calling tool:''
   \<and> render (on_text (on_text (stream_start (submit_user example_chat))
           ''[Calling tool: Search - querying corpus]'')
         ''[Calling tool: Search - querying corpus]'')
       = render (on_text (stream_start (submit_user example_chat))
           ''[Calling tool: Search - querying corpus]'')
   \<and> toolCallMatch ''[Calling tool: Search - querying corpus]'' = Some ''Search - querying corpus''
   \<and> split_tool_text ''Search - querying corpus'' = Some (''Search'', ''querying corpus'')
   \<and> messages (render (stream_start (submit_user example_chat)))
       = [\<lparr>role = User, content = user_text (settings example_chat), toolCalls = None\<rparr>]
         @ [new_assistant []]
   \<and> role (new_assistant []) = Assistant
   \<and> toolCalls (new_assistant []) = Some []
   \<and> messages (render (on_text (on_text (stream_start (submit_user example_chat))
         ''[Calling tool: Search - querying corpus]'') ''[Calling tool: Search - querying corpus]''))
       = [\<lparr>role = User, content = user_text (settings example_chat), toolCalls = None\<rparr>]
         @ [(new_assistant [])\<lparr>toolCalls :=
                 Some [\<lparr>name = trim ''Search'', description = trim ''querying corpus''\<rparr>]\<rparr>]"
proof -
  have ok: "calls_ok (messages example_chat)"
    by (simp add: messages_example_chat calls_ok_def)
  have one: "map toolCalls (messages (handleSubmit example_parse
        (Response True 200 (Some [(True, Chunk
           (data_line (payload ''[Calling tool: Search - querying corpus]'') @ [CHR 0x0A] @
            data_line (payload ''[Calling tool: Search - querying corpus]'') @ [CHR 0x0A]))]))
        example_chat))
       = [None, Some [\<lparr>name = ''Search'', description = ''querying corpus''\<rparr>]]"
    by code_simp
  have h: "js_includes ''[Calling tool: Search - querying corpus]'' ''[Calling tool:''"
    "toolCallMatch ''[Calling tool: Search - querying corpus]'' = Some ''Search - querying corpus''"
    "split_tool_text ''Search - querying corpus'' = Some (''Search'', ''querying corpus'')"
    by code_simp+
  have s: "messages (render (stream_start (submit_user example_chat)))
       = [\<lparr>role = User, content = user_text (settings example_chat), toolCalls = None\<rparr>]
         @ [new_assistant []]"
    "role (new_assistant []) = Assistant"
    "toolCalls (new_assistant []) = Some []"
    by (simp_all add: stream_start_def submit_user_def setMessages_def new_assistant_def
        messages_example_chat)
  note r = tool_calls_deduplicated [OF ok, of example_parse
      "Response True 200 (Some [(True, Chunk
           (data_line (payload ''[Calling tool: Search - querying corpus]'') @ [CHR 0x0A] @
            data_line (payload ''[Calling tool: Search - querying corpus]'') @ [CHR 0x0A]))])"
      "[]" "[]" "''[Calling tool: Search - querying corpus]''"
      "stream_start (submit_user example_chat)"
      "''Search - querying corpus''" "''Search''" "''querying corpus''"
      "[\<lparr>role = User, content = user_text (settings example_chat), toolCalls = None\<rparr>]"
      "new_assistant []"]
  from r ok one h s show ?thesis
    by blast
qed

section \<open>Transport errors\<close>

lemma system_count_roles:
  assumes "map role ms = map role ms'"
  shows "system_count ms = system_count ms'"
proof -
  have c: "system_count xs = length (filter (\<lambda>r. r = System) (map role xs))"
    for xs :: "Message list"
    by (simp add: system_count_def filter_map comp_def)
  show ?thesis
    by (simp only: c assms)
qed

lemma system_count_snoc:
  "system_count (ms @ [m]) = (if role m = System then Suc (system_count ms) else system_count ms)"
  by (simp add: system_count_def)

lemma role_set_last_content: "map role (set_last_content t ms) = map role ms"
  by (cases ms rule: rev_cases) (simp_all add: set_last_content_def set_last_content_snoc)

lemma system_count_run_updater:
  "system_count (run_updater am ms u) = system_count ms + (if adds_system u then 1 else 0)"
  by (cases u)
    (simp_all add: system_count_snoc system_count_roles [OF role_add_tool_call]
      system_count_roles [OF role_set_last_content])

lemma system_count_run_updaters:
  "system_count (run_updaters am ms us) = system_count ms + length (filter adds_system us)"
  by (induction us arbitrary: ms) (simp_all add: system_count_run_updater)

lemma system_count_render: "system_count (messages (render st)) = system_total st"
  by (simp add: system_total_def system_count_run_updaters)

lemma system_total_render: "system_total (render st) = system_total st"
  by (simp add: system_total_def system_count_run_updaters)

lemma system_total_setMessages:
  "system_total (setMessages u st) = system_total st + (if adds_system u then 1 else 0)"
  by (simp add: system_total_def setMessages_def)

lemma system_total_locals:
  "system_total (st\<lparr>assistantMessage := a\<rparr>) = system_total st"
  "system_total (st\<lparr>hasSeenToolCalls := b\<rparr>) = system_total st"
  by (simp_all add: system_total_def)

lemma system_total_on_text: "system_total (on_text st c) = system_total st"
  by (simp add: on_text_def on_tool_call_def system_total_setMessages system_total_locals
      new_assistant_def split: option.splits prod.splits)

lemma system_total_on_content: "system_total (on_content st v) = system_total st"
  by (cases v) (simp_all add: system_total_on_text system_total_setMessages system_total_locals)

lemma system_total_process_line: "system_total (process_line parse st line) = system_total st"
  by (simp add: process_line_def Let_def system_total_on_content split: option.splits sum.splits)

lemma system_total_process_lines: "system_total (process_lines parse st ls) = system_total st"
  by (induction ls arbitrary: st) (simp_all add: system_total_process_line)

lemma system_total_await_read: "system_total (await_read rendered st) = system_total st"
  by (simp add: await_read_def system_total_render)

lemma system_total_read_loop: "system_total (fst (read_loop parse st reads)) = system_total st"
proof (induction reads arbitrary: st)
  case Nil
  then show ?case by simp
next
  case (Cons r reads)
  obtain rendered res where r: "r = (rendered, res)"
    by (cases r)
  show ?case
  proof (cases res)
    case (Chunk chunk)
    with r Cons.IH [of "process_chunk parse (await_read rendered st) chunk"] show ?thesis
      by (simp add: process_chunk_def system_total_process_lines system_total_await_read)
  next
    case (ReadRejected e)
    with r show ?thesis
      by (simp add: system_total_await_read)
  qed
qed

lemma read_loop_rejected:
  "read_loop parse st (chunk_reads rcs @ (rendered, ReadRejected e) # rest) =
     (await_read rendered (fst (read_loop parse st (chunk_reads rcs))), Some e)"
proof (induction rcs arbitrary: st)
  case Nil
  then show ?case by (simp add: chunk_reads_def)
next
  case (Cons rc rcs)
  obtain r c where "rc = (r, c)" by (cases rc)
  with Cons.IH [of "process_chunk parse (await_read r st) c"] show ?case
    by (simp add: chunk_reads_def)
qed

lemma messages_render_await: "messages (render (await_read rendered st)) = messages (render st)"
  by (simp add: await_read_def)

lemma messages_finish_on_error:
  "messages (finish (on_error e st)) =
     messages (render st) @ [\<lparr>role = System, content = error_text e, toolCalls = None\<rparr>]"
  by (simp add: finish_def on_error_def setMessages_def run_updaters_snoc)

lemma handleSubmit_started:
  assumes "trim (researchIdea (settings c)) \<noteq> []" "\<not> isStreaming c"
  shows "handleSubmit parse net c =
     (case net of
        FetchRejected e \<Rightarrow> finish (on_error e (submit_user c))
      | Response ok status body \<Rightarrow>
          if \<not> ok
          then finish (on_error (ErrorObj (''HTTP error! status: '' @ show_nat status))
                 (submit_user c))
          else
            (case body of
               None \<Rightarrow> finish (submit_user c)
             | Some reads \<Rightarrow>
                 (case read_loop parse (stream_start (submit_user c)) reads of
                    (st, None) \<Rightarrow> finish st
                  | (st, Some e) \<Rightarrow> finish (on_error e st))))"
  using assms by (simp add: handleSubmit_def Let_def)

text \<open>
  Claim C6. A submission that passes the guard of line 44 and meets a transport error (a
  rejected \<open>fetch\<close>, a response that is not ok, or a rejected read after some chunks)
  ends with the transcript it had reached, queued updaters run, followed by one system
  message whose content is \<open>Error: \<close> and the description of the error; \<open>isStreaming\<close>
  is false. What the chunks read before the error had put into the assistant message
  stays. The stream adds no other system message.
\<close>

theorem transport_error:
  assumes "trim (researchIdea (settings c)) \<noteq> []" "\<not> isStreaming c"
  shows
    "messages (handleSubmit parse (FetchRejected e) c)
       = messages c @
         [\<lparr>role = User, content = user_text (settings c), toolCalls = None\<rparr>,
          \<lparr>role = System, content = error_text e, toolCalls = None\<rparr>]
     \<and> \<not> isStreaming (handleSubmit parse (FetchRejected e) c)
     \<and> system_count (messages (handleSubmit parse (FetchRejected e) c))
         = Suc (system_count (messages c))
     \<and> messages (handleSubmit parse (Response False status body) c)
         = messages c @
           [\<lparr>role = User, content = user_text (settings c), toolCalls = None\<rparr>,
            \<lparr>role = System, content = ''Error: HTTP error! status: '' @ show_nat status,
             toolCalls = None\<rparr>]
     \<and> \<not> isStreaming (handleSubmit parse (Response False status body) c)
     \<and> system_count (messages (handleSubmit parse (Response False status body) c))
         = Suc (system_count (messages c))
     \<and> messages (handleSubmit parse
           (Response True status (Some (chunk_reads rcs @ (rendered, ReadRejected e) # rest))) c)
         = messages (render (fst (read_loop parse (stream_start (submit_user c))
                                    (chunk_reads rcs)))) @
           [\<lparr>role = System, content = error_text e, toolCalls = None\<rparr>]
     \<and> \<not> isStreaming (handleSubmit parse
           (Response True status (Some (chunk_reads rcs @ (rendered, ReadRejected e) # rest))) c)
     \<and> system_count (messages (handleSubmit parse
           (Response True status (Some (chunk_reads rcs @ (rendered, ReadRejected e) # rest))) c))
         = Suc (system_count (messages c))"
proof -
  let ?user = "\<lparr>role = User, content = user_text (settings c), toolCalls = None\<rparr>"
  have u: "messages (render (submit_user c)) = messages c @ [?user]"
    by (simp add: submit_user_def)
  have early: "messages (finish (on_error x (submit_user c))) =
      messages c @ [?user, \<lparr>role = System, content = error_text x, toolCalls = None\<rparr>]" for x
    by (simp only: messages_finish_on_error u) simp
  have early_count: "system_count (messages (finish (on_error x (submit_user c)))) =
      Suc (system_count (messages c))" for x
    by (simp only: early) (simp add: system_count_def)
  have flag: "\<not> isStreaming (finish st)" for st
    by (simp add: finish_def)
  have http: "error_text (ErrorObj (''HTTP error! status: '' @ show_nat status)) =
      ''Error: HTTP error! status: '' @ show_nat status"
    by (simp add: error_text_def)
  define st where "st = fst (read_loop parse (stream_start (submit_user c)) (chunk_reads rcs))"
  have t: "system_total (stream_start (submit_user c)) = system_count (messages c)"
    by (simp add: system_total_def stream_start_def setMessages_def submit_user_def
        new_assistant_def)
  have count: "system_count (messages (render st)) = system_count (messages c)"
    unfolding st_def by (simp only: system_count_render system_total_read_loop t)
  have late: "handleSubmit parse
      (Response True status (Some (chunk_reads rcs @ (rendered, ReadRejected e) # rest))) c =
      finish (on_error e (await_read rendered st))"
    by (simp add: handleSubmit_started [OF assms] read_loop_rejected st_def)
  have late_messages: "messages (finish (on_error e (await_read rendered st))) =
      messages (render st) @ [\<lparr>role = System, content = error_text e, toolCalls = None\<rparr>]"
    by (simp only: messages_finish_on_error messages_render_await)
  have late_count: "system_count (messages (finish (on_error e (await_read rendered st)))) =
      Suc (system_count (messages c))"
    by (simp only: late_messages system_count_snoc count) simp
  have 1: "handleSubmit parse (FetchRejected e) c = finish (on_error e (submit_user c))"
    by (simp add: handleSubmit_started [OF assms])
  have 2: "handleSubmit parse (Response False status body) c =
      finish (on_error (ErrorObj (''HTTP error! status: '' @ show_nat status)) (submit_user c))"
    by (simp add: handleSubmit_started [OF assms])
  show ?thesis
    unfolding 1 2 late st_def [symmetric]
    using early [of e] early_count [of e]
      early [of "ErrorObj (''HTTP error! status: '' @ show_nat status)"]
      early_count [of "ErrorObj (''HTTP error! status: '' @ show_nat status)"]
      late_messages late_count flag
    by (simp only: http simp_thms)
qed

theorem transport_error_witness:
  "trim (researchIdea (settings example_chat)) \<noteq> []
   \<and> \<not> isStreaming example_chat
   \<and> map content (messages (handleSubmit example_parse
         (FetchRejected (ErrorObj ''Failed to fetch'')) example_chat))
       = [user_text (settings example_chat), ''Error: Failed to fetch'']
   \<and> \<not> isStreaming (handleSubmit example_parse (FetchRejected (ErrorObj ''Failed to fetch''))
          example_chat)
   \<and> map content (messages (handleSubmit example_parse (Response False 500 None) example_chat))
       = [user_text (settings example_chat), ''Error: HTTP error! status: 500'']
   \<and> \<not> isStreaming (handleSubmit example_parse (Response False 500 None) example_chat)
   \<and> messages (handleSubmit example_parse
         (Response True 200
            (Some (chunk_reads [(True, data_line (payload ''Hello '') @ [CHR 0x0A])] @
                   (True, ReadRejected (ErrorObj ''network error'')) # []))) example_chat)
       = messages (render (fst (read_loop example_parse (stream_start (submit_user example_chat))
           (chunk_reads [(True, data_line (payload ''Hello '') @ [CHR 0x0A])])))) @
         [\<lparr>role = System, content = error_text (ErrorObj ''network error''), toolCalls = None\<rparr>]
   \<and> map content (messages (render (fst (read_loop example_parse
           (stream_start (submit_user example_chat))
           (chunk_reads [(True, data_line (payload ''Hello '') @ [CHR 0x0A])])))))
       = [user_text (settings example_chat), ''Hello '']
   \<and> \<not> isStreaming (handleSubmit example_parse
         (Response True 200
            (Some (chunk_reads [(True, data_line (payload ''Hello '') @ [CHR 0x0A])] @
                   (True, ReadRejected (ErrorObj ''network error'')) # []))) example_chat)
   \<and> system_count (messages (handleSubmit example_parse
         (Response True 200
            (Some (chunk_reads [(True, data_line (payload ''Hello '') @ [CHR 0x0A])] @
                   (True, ReadRejected (ErrorObj ''network error'')) # []))) example_chat))
       = Suc (system_count (messages example_chat))"
proof -
  have g: "trim (researchIdea (settings example_chat)) \<noteq> []" "\<not> isStreaming example_chat"
    by code_simp+
  have e: "error_text (ErrorObj ''Failed to fetch'') = ''Error: Failed to fetch''"
    by (simp add: error_text_def)
  have n: "show_nat 500 = ''500''"
    by code_simp
  have a: "map content (messages (render (fst (read_loop example_parse
           (stream_start (submit_user example_chat))
           (chunk_reads [(True, data_line (payload ''Hello '') @ [CHR 0x0A])])))))
       = [user_text (settings example_chat), ''Hello '']"
    by code_simp
  note r = transport_error [OF g, of example_parse "ErrorObj ''Failed to fetch''" 500 None
      "[(True, data_line (payload ''Hello '') @ [CHR 0x0A])]" True "[]"]
  note r2 = transport_error [OF g, of example_parse "ErrorObj ''network error''" 200 None
      "[(True, data_line (payload ''Hello '') @ [CHR 0x0A])]" True "[]"]
  from r have "messages (handleSubmit example_parse
         (FetchRejected (ErrorObj ''Failed to fetch'')) example_chat)
       = messages example_chat @
         [\<lparr>role = User, content = user_text (settings example_chat), toolCalls = None\<rparr>,
          \<lparr>role = System, content = error_text (ErrorObj ''Failed to fetch''),
            toolCalls = None\<rparr>]"
    by (rule conjunct1)
  then have b1: "map content (messages (handleSubmit example_parse
         (FetchRejected (ErrorObj ''Failed to fetch'')) example_chat))
       = [user_text (settings example_chat), ''Error: Failed to fetch'']"
    by (simp add: e messages_example_chat)
  from r have "messages (handleSubmit example_parse (Response False 500 None) example_chat)
         = messages example_chat @
           [\<lparr>role = User, content = user_text (settings example_chat), toolCalls = None\<rparr>,
            \<lparr>role = System, content = ''Error: HTTP error! status: '' @ show_nat 500,
             toolCalls = None\<rparr>]"
    by blast
  then have b2: "map content (messages (handleSubmit example_parse (Response False 500 None)
        example_chat)) = [user_text (settings example_chat), ''Error: HTTP error! status: 500'']"
    by (simp add: n messages_example_chat)
  from r r2 g a b1 b2 show ?thesis
    by blast
qed

section \<open>Segments\<close>

lemma add_tool_call_snoc2:
  "add_tool_call n d (ms @ [a, m]) =
     (if role m = Assistant then
        ms @ [a, m\<lparr>toolCalls :=
                Some (let calls = (case toolCalls m of None \<Rightarrow> [] | Some cs \<Rightarrow> cs) in
                      if list_ex (\<lambda>call. name call @ '' - '' @ description call
                                      = trim n @ '' - '' @ trim d) calls
                      then calls
                      else calls @ [\<lparr>name = trim n, description = trim d\<rparr>])\<rparr>]
      else ms @ [a, m])"
  using add_tool_call_snoc [of n d "ms @ [a]" m] by simp

lemma set_last_content_snoc2:
  "set_last_content t (ms @ [a, m]) =
     (if role m = Assistant then ms @ [a, m\<lparr>content := t\<rparr>] else ms @ [a, m])"
  using set_last_content_snoc [of t "ms @ [a]" m] by simp

lemma render_segment_break:
  assumes "\<not> js_includes p ''[Calling tool:''" "hasSeenToolCalls st" "trim p \<noteq> []"
  shows "on_text st p = st\<lparr>pending := pending st @ [Append (new_assistant p)],
                           assistantMessage := p, hasSeenToolCalls := False\<rparr>"
    and "messages (render (on_text st p)) =
           messages (render (st\<lparr>assistantMessage := p\<rparr>)) @ [new_assistant p]"
  using assms by (simp_all add: on_text_segment_break run_updaters_snoc)

text \<open>
  Claim C3, as the code has it. Three events in a row, prose, an annotation, then prose
  that does not trim to the empty string, and the sentinel, whether or not React renders
  after the first and after the second event, leave two assistant messages after the
  messages the transcript had and the user message: the first holds the extracted tool
  call, the second holds the later prose and no tool call. The content of the first is
  the earlier prose when React has rendered between the earlier and the later prose;
  nothing is said of it otherwise. Whenever \<open>hasSeenToolCalls\<close> is true, such prose
  queues a new assistant message, which is the last message once rendered, and resets the
  flag.
\<close>

theorem segment_break:
  assumes "p1 \<noteq> ''[DONE]''" "parse p1 = Some (delta_event prose1)"
    and "p2 \<noteq> ''[DONE]''" "parse p2 = Some (delta_event annotation)"
    and "p3 \<noteq> ''[DONE]''" "parse p3 = Some (delta_event prose2)"
    and "\<not> js_includes prose1 ''[Calling tool:''"
    and "toolCallMatch annotation = Some t" "split_tool_text t = Some (n, d)"
    and "\<not> js_includes prose2 ''[Calling tool:''" "trim prose2 \<noteq> []"
  shows "(\<exists>x. messages (render
             (process_line parse
               (process_line parse
                 (await_read r2
                   (process_line parse
                     (await_read r1
                       (process_line parse (stream_start (submit_user c)) (data_line p1)))
                     (data_line p2)))
                 (data_line p3))
               (data_line ''[DONE]'')))
           = messages c @
             [\<lparr>role = User, content = user_text (settings c), toolCalls = None\<rparr>,
              \<lparr>role = Assistant, content = x,
               toolCalls = Some [\<lparr>name = trim n, description = trim d\<rparr>]\<rparr>,
              \<lparr>role = Assistant, content = prose2, toolCalls = Some []\<rparr>]
           \<and> (r1 \<or> r2 \<longrightarrow> x = prose1))
       \<and> (hasSeenToolCalls st \<longrightarrow>
            on_text st prose2 =
              st\<lparr>pending := pending st @ [Append (new_assistant prose2)],
                 assistantMessage := prose2, hasSeenToolCalls := False\<rparr>
            \<and> messages (render (on_text st prose2)) =
                messages (render (st\<lparr>assistantMessage := prose2\<rparr>)) @ [new_assistant prose2])"
proof (intro conjI impI)
  define s0 where "s0 = stream_start (submit_user c)"
  define s1 where "s1 = process_line parse s0 (data_line p1)"
  define s1' where "s1' = await_read r1 s1"
  define s2 where "s2 = process_line parse s1' (data_line p2)"
  define s2' where "s2' = await_read r2 s2"
  define s3 where "s3 = process_line parse s2' (data_line p3)"
  let ?user = "\<lparr>role = User, content = user_text (settings c), toolCalls = None\<rparr>"
  have s0: "messages s0 = messages c" "assistantMessage s0 = []" "\<not> hasSeenToolCalls s0"
    "pending s0 = [Append ?user, Append (new_assistant [])]"
    by (simp_all add: s0_def stream_start_def submit_user_def setMessages_def)
  have s1: "messages s1 = messages c" "assistantMessage s1 = prose1" "\<not> hasSeenToolCalls s1"
    "pending s1 = [Append ?user, Append (new_assistant [])] @
       (if prose1 = [] then [] else [SetContent])"
    using assms(1,2,7) s0 unfolding s1_def
    by (simp_all add: process_line_event on_text_accumulate)
  have s1': "assistantMessage s1' = prose1" "\<not> hasSeenToolCalls s1'"
    "messages s1' = (if r1 then messages c @ [?user, new_assistant prose1] else messages c)"
    "pending s1' = (if r1 then [] else [Append ?user, Append (new_assistant [])] @
       (if prose1 = [] then [] else [SetContent]))"
    using s1 unfolding s1'_def
    by (simp_all add: await_read_def set_last_content_snoc2 new_assistant_def)
  from assms(8) have inc: "js_includes annotation ''[Calling tool:''"
    by (rule toolCallMatch_includes)
  then have ne: "annotation \<noteq> []"
    by auto
  have s2: "assistantMessage s2 = prose1" "hasSeenToolCalls s2" "messages s2 = messages s1'"
    "pending s2 = pending s1' @ [AddToolCall n d]"
    using assms(3,4,8,9) inc ne s1' unfolding s2_def
    by (simp_all add: process_line_event on_text_match)
  let ?m1 = "\<lambda>x. \<lparr>role = Assistant, content = x,
               toolCalls = Some [\<lparr>name = trim n, description = trim d\<rparr>]\<rparr>"
  have s2': "assistantMessage s2' = prose1" "hasSeenToolCalls s2'"
    "r1 \<or> r2 \<Longrightarrow> run_updaters am (messages s2') (pending s2') = messages c @ [?user, ?m1 prose1]"
    "\<not> r1 \<Longrightarrow> \<not> r2 \<Longrightarrow> run_updaters am (messages s2') (pending s2') =
        messages c @ [?user, ?m1 (if prose1 = [] then [] else am)]"
    for am
    using s2 s1' unfolding s2'_def
    by (auto simp add: await_read_def set_last_content_snoc2 add_tool_call_snoc2 new_assistant_def)
  from assms(11) have ne3: "prose2 \<noteq> []"
    by (auto simp: trim_def)
  have s3: "on_text s2' prose2 = s3"
    using assms(5,6) ne3 unfolding s3_def by (simp add: process_line_event)
  have fin: "messages (render s3) =
      run_updaters prose2 (messages s2') (pending s2') @ [new_assistant prose2]"
    using render_segment_break(2) [OF assms(10) s2'(2) assms(11)] s3 by simp
  have whole: "process_line parse
               (process_line parse
                 (await_read r2
                   (process_line parse
                     (await_read r1
                       (process_line parse (stream_start (submit_user c)) (data_line p1)))
                     (data_line p2)))
                 (data_line p3))
               (data_line ''[DONE]'') = s3"
    by (simp add: process_line_done s3_def s2'_def s2_def s1'_def s1_def s0_def)
  show "\<exists>x. messages (render
             (process_line parse
               (process_line parse
                 (await_read r2
                   (process_line parse
                     (await_read r1
                       (process_line parse (stream_start (submit_user c)) (data_line p1)))
                     (data_line p2)))
                 (data_line p3))
               (data_line ''[DONE]'')))
           = messages c @
             [?user, ?m1 x, \<lparr>role = Assistant, content = prose2, toolCalls = Some []\<rparr>]
           \<and> (r1 \<or> r2 \<longrightarrow> x = prose1)"
  proof (cases "r1 \<or> r2")
    case True
    from s2'(3) [OF True, of prose2] fin
    have "messages (render s3) = messages c @
             [?user, ?m1 prose1, \<lparr>role = Assistant, content = prose2, toolCalls = Some []\<rparr>]"
      by (simp add: new_assistant_def)
    then show ?thesis
      unfolding whole by blast
  next
    case False
    then have "\<not> r1" "\<not> r2" by simp_all
    from s2'(4) [OF this, of prose2] fin
    have "messages (render s3) = messages c @
             [?user, ?m1 (if prose1 = [] then [] else prose2),
              \<lparr>role = Assistant, content = prose2, toolCalls = Some []\<rparr>]"
      by (simp add: new_assistant_def)
    with False show ?thesis
      unfolding whole by blast
  qed
next
  assume "hasSeenToolCalls st"
  from render_segment_break [OF assms(10) this assms(11)]
  show "on_text st prose2 =
              st\<lparr>pending := pending st @ [Append (new_assistant prose2)],
                 assistantMessage := prose2, hasSeenToolCalls := False\<rparr>"
    and "messages (render (on_text st prose2)) =
                messages (render (st\<lparr>assistantMessage := prose2\<rparr>)) @ [new_assistant prose2]"
    by simp_all
qed

theorem segment_break_witness:
  "payload ''Hello '' \<noteq> ''[DONE]''
   \<and> example_parse (payload ''Hello '') = Some (delta_event ''Hello '')
   \<and> payload ''[Calling tool: Search - querying corpus]'' \<noteq> ''[DONE]''
   \<and> example_parse (payload ''[Calling tool: Search - querying corpus]'')
       = Some (delta_event ''[Calling tool: Search - querying corpus]'')
   \<and> payload ''Result: X'' \<noteq> ''[DONE]''
   \<and> example_parse (payload ''Result: X'') = Some (delta_event ''Result: X'')
   \<and> \<not> js_includes ''Hello '' ''[Calling tool:''
   \<and> toolCallMatch ''[Calling tool: Search - querying corpus]'' = Some ''Search - querying corpus''
   \<and> split_tool_text ''Search - querying corpus'' = Some (''Search'', ''querying corpus'')
   \<and> \<not> js_includes ''Result: X'' ''[Calling tool:''
   \<and> trim ''Result: X'' \<noteq> []
   \<and> messages (render
        (process_line example_parse
          (process_line example_parse
            (await_read False
              (process_line example_parse
                (await_read True
                  (process_line example_parse (stream_start (submit_user example_chat))
                     (data_line (payload ''Hello ''))))
                (data_line (payload ''[Calling tool: Search - querying corpus]''))))
            (data_line (payload ''Result: X'')))
          (data_line ''[DONE]'')))
       = [\<lparr>role = User, content = user_text (settings example_chat), toolCalls = None\<rparr>,
          \<lparr>role = Assistant, content = ''Hello '',
            toolCalls = Some [\<lparr>name = ''Search'', description = ''querying corpus''\<rparr>]\<rparr>,
          \<lparr>role = Assistant, content = ''Result: X'', toolCalls = Some []\<rparr>]
   \<and> hasSeenToolCalls ((stream_start (submit_user example_chat))\<lparr>hasSeenToolCalls := True\<rparr>)
   \<and> messages (render (on_text
         ((stream_start (submit_user example_chat))\<lparr>hasSeenToolCalls := True\<rparr>) ''Result: X''))
       = [\<lparr>role = User, content = user_text (settings example_chat), toolCalls = None\<rparr>,
          new_assistant [], new_assistant ''Result: X'']"
proof -
  have h: "payload ''Hello '' \<noteq> ''[DONE]''"
    "example_parse (payload ''Hello '') = Some (delta_event ''Hello '')"
    "payload ''[Calling tool: Search - querying corpus]'' \<noteq> ''[DONE]''"
    "example_parse (payload ''[Calling tool: Search - querying corpus]'')
       = Some (delta_event ''[Calling tool: Search - querying corpus]'')"
    "payload ''Result: X'' \<noteq> ''[DONE]''"
    "example_parse (payload ''Result: X'') = Some (delta_event ''Result: X'')"
    "\<not> js_includes ''Hello '' ''[Calling tool:''"
    "toolCallMatch ''[Calling tool: Search - querying corpus]'' = Some ''Search - querying corpus''"
    "split_tool_text ''Search - querying corpus'' = Some (''Search'', ''querying corpus'')"
    "\<not> js_includes ''Result: X'' ''[Calling tool:''"
    "trim ''Result: X'' \<noteq> []"
    by code_simp+
  have tr: "trim ''Search'' = ''Search''" "trim ''querying corpus'' = ''querying corpus''"
    by code_simp+
  define flagged where
    "flagged = (stream_start (submit_user example_chat))\<lparr>hasSeenToolCalls := True\<rparr>"
  have f: "hasSeenToolCalls flagged"
    by (simp add: flagged_def)
  define final where "final = messages (render
        (process_line example_parse
          (process_line example_parse
            (await_read False
              (process_line example_parse
                (await_read True
                  (process_line example_parse (stream_start (submit_user example_chat))
                     (data_line (payload ''Hello ''))))
                (data_line (payload ''[Calling tool: Search - querying corpus]''))))
            (data_line (payload ''Result: X'')))
          (data_line ''[DONE]'')))"
  note r = segment_break [OF h, of False True example_chat flagged, folded final_def]
  from r obtain x where x: "final = messages example_chat @
             [\<lparr>role = User, content = user_text (settings example_chat), toolCalls = None\<rparr>,
              \<lparr>role = Assistant, content = x,
               toolCalls = Some [\<lparr>name = trim ''Search'',
                                  description = trim ''querying corpus''\<rparr>]\<rparr>,
              \<lparr>role = Assistant, content = ''Result: X'', toolCalls = Some []\<rparr>]"
    and "True \<or> False \<longrightarrow> x = ''Hello ''"
    by blast
  then have "x = ''Hello ''"
    by simp
  with x have 1: "final =
         [\<lparr>role = User, content = user_text (settings example_chat), toolCalls = None\<rparr>,
          \<lparr>role = Assistant, content = ''Hello '',
            toolCalls = Some [\<lparr>name = ''Search'', description = ''querying corpus''\<rparr>]\<rparr>,
          \<lparr>role = Assistant, content = ''Result: X'', toolCalls = Some []\<rparr>]"
    by (simp add: tr messages_example_chat)
  from r f have "messages (render (on_text flagged ''Result: X'')) =
      messages (render (flagged\<lparr>assistantMessage := ''Result: X''\<rparr>)) @
      [new_assistant ''Result: X'']"
    by blast
  then have 2: "messages (render (on_text flagged ''Result: X''))
       = [\<lparr>role = User, content = user_text (settings example_chat), toolCalls = None\<rparr>,
          new_assistant [], new_assistant ''Result: X'']"
    by (simp add: flagged_def stream_start_def submit_user_def setMessages_def
        messages_example_chat)
  from h f 1 2 show ?thesis
    unfolding final_def flagged_def by (intro conjI)
qed

text \<open>The end-to-end scenario of the spec, from the submission to the final state, when
  React renders while each read is awaited.\<close>

lemma end_to_end_scenario:
  "handleSubmit example_parse
     (Response True 200
        (Some [(True, Chunk (data_line (payload ''Hello '') @ [CHR 0x0A])),
               (True, Chunk (data_line (payload ''[Calling tool: Search - querying corpus]'') @
                             [CHR 0x0A])),
               (True, Chunk (data_line (payload ''Result: X'') @ [CHR 0x0A] @
                             data_line ''[DONE]'' @ [CHR 0x0A]))]))
     example_chat
   = \<lparr>messages =
        [\<lparr>role = User, content = user_text (settings example_chat), toolCalls = None\<rparr>,
         \<lparr>role = Assistant, content = ''Hello '',
           toolCalls = Some [\<lparr>name = ''Search'', description = ''querying corpus''\<rparr>]\<rparr>,
         \<lparr>role = Assistant, content = ''Result: X'', toolCalls = Some []\<rparr>],
      isStreaming = False,
      settings = settings example_chat\<rparr>"
  by code_simp

text \<open>
  Claim C3, as the spec states it, fails when the later prose is blank: a single space
  after the annotation is appended to the first message, and no second message appears,
  even when React renders after every event.
\<close>

theorem blank_prose_counterexample:
  "\<not> js_includes '' '' ''[Calling tool:''
   \<and> messages (handleSubmit example_parse
        (Response True 200
           (Some [(True, Chunk (data_line (payload ''Hello '') @ [CHR 0x0A])),
                  (True, Chunk (data_line (payload ''[Calling tool: Search - querying corpus]'') @
                                [CHR 0x0A])),
                  (True, Chunk (data_line (payload '' '') @ [CHR 0x0A])),
                  (True, Chunk (data_line ''[DONE]'' @ [CHR 0x0A]))]))
        example_chat)
       = [\<lparr>role = User, content = user_text (settings example_chat), toolCalls = None\<rparr>,
          \<lparr>role = Assistant, content = ''Hello  '',
            toolCalls = Some [\<lparr>name = ''Search'', description = ''querying corpus''\<rparr>]\<rparr>]"
  by code_simp

section \<open>Accumulated text\<close>

text \<open>
  Claim C7 fails on the code, against what the comments of lines 150 to 165 announce.
  The updater of lines 166 to 173 reads \<open>assistantMessage\<close> when React runs it. A
  first chunk \<open>Hello world \<close> is rendered: the assistant message shows that text. The
  next chunk holds the prose \<open>more\<close>, an annotation and the prose \<open>X\<close>: line 161 has
  set \<open>assistantMessage\<close> to \<open>X\<close> before the updater queued for \<open>more\<close> runs, so the
  first message ends with the content \<open>X\<close>, which \<open>Hello world \<close> is no prefix of, and
  never holds \<open>Hello world more\<close>.
\<close>

theorem content_overwritten_after_segment_break:
  "map content (messages (await_read True (fst (read_loop example_parse
       (stream_start (submit_user example_chat))
       [(True, Chunk (data_line (payload ''Hello world '') @ [CHR 0x0A]))]))))
     = [user_text (settings example_chat), ''Hello world '']
   \<and> map content (messages (handleSubmit example_parse
       (Response True 200
          (Some [(True, Chunk (data_line (payload ''Hello world '') @ [CHR 0x0A])),
                 (True, Chunk (data_line (payload ''more'') @ [CHR 0x0A] @
                               data_line (payload ''[Calling tool: Search - querying corpus]'') @
                               [CHR 0x0A] @
                               data_line (payload ''X'') @ [CHR 0x0A]))]))
       example_chat))
     = [user_text (settings example_chat), ''X'', ''X'']
   \<and> \<not> prefix ''Hello world '' ''X''"
  by code_simp

text \<open>The same defect on the scenario of the spec when its four lines come in one chunk:
  the first message ends with the later prose.\<close>

lemma one_chunk_scenario:
  "map content (messages (handleSubmit example_parse
     (Response True 200
        (Some [(True, Chunk (data_line (payload ''Hello '') @ [CHR 0x0A] @
                             data_line (payload ''[Calling tool: Search - querying corpus]'') @
                             [CHR 0x0A] @
                             data_line (payload ''Result: X'') @ [CHR 0x0A] @
                             data_line ''[DONE]'' @ [CHR 0x0A]))]))
     example_chat))
   = [user_text (settings example_chat), ''Result: X'', ''Result: X'']"
  by code_simp

end
